theory Spec2Isabelle
  imports Main "HOL-Library.Word" "HOL-Library.Char_ord" "HOL-Library.List_Lexorder"
    "HOL-Library.Sublist"
begin

unbundle bit_operations_syntax

section \<open>Strings, paths and keys\<close>

text \<open>
  Paths and file names are Python \<open>str\<close> values, modelled as \<open>string\<close>; file
  contents are byte strings. The page constants are those of lines 33 to 40 of
  \<open>web_fotografo.py\<close>.
\<close>

type_synonym path = string
type_synonym bytes = "8 word list"

definition THUMBNAIL_SIZE :: "nat \<times> nat" where "THUMBNAIL_SIZE = (400, 300)"
definition PREVIEW_SIZE :: "nat \<times> nat" where "PREVIEW_SIZE = (800, 600)"
definition THUMBNAIL_QUALITY :: nat where "THUMBNAIL_QUALITY = 85"
definition PREVIEW_QUALITY :: nat where "PREVIEW_QUALITY = 90"
definition IMAGES_PER_PAGE :: int where "IMAGES_PER_PAGE = 8"
definition CACHE_DIR :: path where "CACHE_DIR = ''cache''"
definition THUMBNAILS_DIR :: path where "THUMBNAILS_DIR = CACHE_DIR @ ''/thumbnails''"
definition PREVIEWS_DIR :: path where "PREVIEWS_DIR = CACHE_DIR @ ''/previews''"

text \<open>
  \<open>str(n)\<close> on a Python integer: the decimal digits, with a leading minus sign for a
  negative number.
\<close>

definition digit_char :: "nat \<Rightarrow> char" where
  "digit_char d = ''0123456789abcdef'' ! d"

fun str_nat :: "nat \<Rightarrow> string" where
  "str_nat n = (if n < 10 then [digit_char n] else str_nat (n div 10) @ [digit_char (n mod 10)])"

declare str_nat.simps [simp del]

definition str_int :: "int \<Rightarrow> string" where
  "str_int i = (if i < 0 then CHR ''-'' # str_nat (nat (- i)) else str_nat (nat i))"

text \<open>
  \<open>hashlib.md5(data).hexdigest()\<close>: MD5 yields a 128-bit digest, and \<open>hexdigest\<close>
  writes it as 32 lower-case hexadecimal digits, most significant nibble first.
\<close>

definition hexdigest :: "128 word \<Rightarrow> string" where
  "hexdigest d = map (\<lambda>i. digit_char (unat (drop_bit (4 * (31 - i)) d AND 15))) [0..<32]"

text \<open>
  \<open>os.path.join(a, b)\<close> of \<open>posixpath\<close>: an absolute second part replaces the
  first; otherwise the parts are joined by one slash, none being added after an empty
  first part or one that ends with a slash.
\<close>

definition os_path_join :: "path \<Rightarrow> path \<Rightarrow> path" where
  "os_path_join a b =
     (if b \<noteq> [] \<and> hd b = CHR ''/'' then b
      else if a = [] \<or> last a = CHR ''/'' then a @ b
      else a @ ''/'' @ b)"

section \<open>The world the program runs in\<close>

text \<open>
  Every \<open>raise\<close> of the source is a value of type \<open>py_exc\<close>. The clause
  \<open>except Exception\<close> catches the exceptions for which \<open>is_Exception\<close> holds; a
  bare \<open>except\<close> catches all of them.
\<close>

datatype py_exc =
    FileNotFoundError | IsADirectoryError | NotADirectoryError | PermissionError | OSError
  | UnidentifiedImageError | ValueError | ZeroDivisionError | MemoryError | TimeoutError
  | KeyboardInterrupt | SystemExit

fun is_Exception :: "py_exc \<Rightarrow> bool" where
  "is_Exception KeyboardInterrupt = False"
| "is_Exception SystemExit = False"
| "is_Exception _ = True"

text \<open>
  A path of the file system names a readable file, a directory with its entries, or
  something that exists and cannot be opened for reading.
\<close>

datatype node = File bytes | Dir "string list" | Unreadable

datatype event =
    EvRead path
  | EvExists path
  | EvListdir path
  | EvTranscode path path "py_exc + bool"

text \<open>
  The state: the file system, the four in-process tables kept by the \<open>st.cache_data\<close>
  decorators (lines 48, 90, 112 and 155), and the log of the file-system operations the
  program has performed, oldest first.
\<close>

record world =
  files :: "path \<rightharpoonup> node"
  hash_memo :: "path \<rightharpoonup> string"
  thumbnail_memo :: "path \<rightharpoonup> path"
  preview_memo :: "path \<rightharpoonup> path"
  gallery_memo :: "string \<rightharpoonup> path list"
  log :: "event list"

record image =
  img_mode :: string
  img_size :: "nat \<times> nat"
  img_data :: bytes

record save_kwargs =
  kw_format :: string
  kw_quality :: nat
  kw_optimize :: bool
  kw_method :: "nat option"

text \<open>
  What \<open>img.save\<close> does to the destination: it writes the encoded bytes, or it raises,
  leaving the destination as it was (\<open>None\<close>) or holding what had been written so far.
\<close>

datatype save_outcome = Saved bytes | SaveRaised py_exc "bytes option"

text \<open>
  The libraries the program calls are parameters: MD5, the built-in \<open>hash\<close> (a signed
  64-bit value), and the Pillow operations, each of which returns or raises.
\<close>

record env =
  hashlib_md5 :: "bytes \<Rightarrow> 128 word"
  builtin_hash :: "string \<Rightarrow> 64 word"
  pil_open :: "bytes \<Rightarrow> py_exc + image"
  pil_convert :: "image \<Rightarrow> string \<Rightarrow> py_exc + image"
  pil_thumbnail :: "image \<Rightarrow> nat \<times> nat \<Rightarrow> py_exc + image"
  pil_save :: "world \<Rightarrow> image \<Rightarrow> path \<Rightarrow> save_kwargs \<Rightarrow> save_outcome"

definition record_event :: "event \<Rightarrow> world \<Rightarrow> world" where
  "record_event e w = w\<lparr>log := log w @ [e]\<rparr>"

definition new_events :: "world \<Rightarrow> world \<Rightarrow> event list" where
  "new_events w w' = drop (length (log w)) (log w')"

fun is_transcode :: "event \<Rightarrow> bool" where
  "is_transcode (EvTranscode src dst r) = True"
| "is_transcode _ = False"

text \<open>\<open>open(path, 'rb').read()\<close>\<close>

definition open_read :: "path \<Rightarrow> world \<Rightarrow> py_exc + bytes" where
  "open_read p w =
     (case files w p of
        None \<Rightarrow> Inl FileNotFoundError
      | Some (File b) \<Rightarrow> Inr b
      | Some (Dir names) \<Rightarrow> Inl IsADirectoryError
      | Some Unreadable \<Rightarrow> Inl PermissionError)"

definition os_path_exists :: "path \<Rightarrow> world \<Rightarrow> bool \<times> world" where
  "os_path_exists p w = (files w p \<noteq> None, record_event (EvExists p) w)"

definition os_listdir :: "path \<Rightarrow> world \<Rightarrow> (py_exc + string list) \<times> world" where
  "os_listdir p w =
     (case files w p of
        None \<Rightarrow> Inl FileNotFoundError
      | Some (File b) \<Rightarrow> Inl NotADirectoryError
      | Some (Dir names) \<Rightarrow> Inr names
      | Some Unreadable \<Rightarrow> Inl PermissionError,
      record_event (EvListdir p) w)"

text \<open>
  \<open>@st.cache_data\<close>: a call whose argument is in the table returns the stored value
  and does not run the body; otherwise the body runs and its return value is stored. A
  raised exception is not stored. Entries leave the table when their time to live is
  over, which \<open>expire\<close> models: any entries may have gone between two calls.
\<close>

definition st_cache_data ::
  "(world \<Rightarrow> 'k \<rightharpoonup> 'v) \<Rightarrow> ((('k \<rightharpoonup> 'v) \<Rightarrow> ('k \<rightharpoonup> 'v)) \<Rightarrow> world \<Rightarrow> world) \<Rightarrow>
   ('k \<Rightarrow> world \<Rightarrow> (py_exc + 'v) \<times> world) \<Rightarrow> 'k \<Rightarrow> world \<Rightarrow> (py_exc + 'v) \<times> world" where
  "st_cache_data table table_update body k w =
     (case table w k of
        Some v \<Rightarrow> (Inr v, w)
      | None \<Rightarrow>
          (case body k w of
             (Inl e, w') \<Rightarrow> (Inl e, w')
           | (Inr v, w') \<Rightarrow> (Inr v, table_update (\<lambda>m. m(k \<mapsto> v)) w')))"

definition expire :: "path set \<Rightarrow> path set \<Rightarrow> path set \<Rightarrow> string set \<Rightarrow> world \<Rightarrow> world" where
  "expire H T P G w =
     w\<lparr>hash_memo := hash_memo w |` (- H), thumbnail_memo := thumbnail_memo w |` (- T),
       preview_memo := preview_memo w |` (- P), gallery_memo := gallery_memo w |` (- G)\<rparr>"

text \<open>
  An entry of a table is fresh for a call when it holds what the body of the call
  would return now; a missing entry is fresh. Source images are immutable while the
  cache serves them, so an entry made from a source stays fresh.
\<close>

definition memo_fresh :: "('k \<rightharpoonup> 'v) \<Rightarrow> 'k \<Rightarrow> (py_exc + 'v) \<Rightarrow> bool" where
  "memo_fresh table k r = (case table k of None \<Rightarrow> True | Some v \<Rightarrow> r = Inr v)"

section \<open>The image cache\<close>

text \<open>\<open>get_image_hash\<close>, lines 48 to 55.\<close>

definition get_image_hash_body :: "env \<Rightarrow> path \<Rightarrow> world \<Rightarrow> (py_exc + string) \<times> world" where
  "get_image_hash_body E image_path w =
     (case open_read image_path w of
        Inr data \<Rightarrow> Inr (hexdigest (hashlib_md5 E data))
      | Inl e \<Rightarrow> Inr (str_int (sint (builtin_hash E image_path))),
      record_event (EvRead image_path) w)"

definition get_image_hash :: "env \<Rightarrow> path \<Rightarrow> world \<Rightarrow> (py_exc + string) \<times> world" where
  "get_image_hash E = st_cache_data hash_memo hash_memo_update (get_image_hash_body E)"

text \<open>\<open>str.upper\<close> and \<open>str.lower\<close> on the ASCII letters.\<close>

definition upper_char :: "char \<Rightarrow> char" where
  "upper_char c =
     (case map_of (zip ''abcdefghijklmnopqrstuvwxyz'' ''ABCDEFGHIJKLMNOPQRSTUVWXYZ'') c of
        None \<Rightarrow> c | Some d \<Rightarrow> d)"

definition lower_char :: "char \<Rightarrow> char" where
  "lower_char c =
     (case map_of (zip ''ABCDEFGHIJKLMNOPQRSTUVWXYZ'' ''abcdefghijklmnopqrstuvwxyz'') c of
        None \<Rightarrow> c | Some d \<Rightarrow> d)"

definition upper :: "string \<Rightarrow> string" where "upper s = map upper_char s"
definition lower :: "string \<Rightarrow> string" where "lower s = map lower_char s"

text \<open>\<open>Image.open(image_path)\<close> reads the file and decodes it.\<close>

definition Image_open :: "env \<Rightarrow> path \<Rightarrow> world \<Rightarrow> py_exc + image" where
  "Image_open E image_path w =
     (case open_read image_path w of Inl e \<Rightarrow> Inl e | Inr data \<Rightarrow> pil_open E data)"

text \<open>
  \<open>optimize_image_for_web\<close>, lines 62 to 88 (\<open>target_sz\<close> is the parameter
  \<open>target_size\<close>, a name the word library uses). First the \<open>try\<close> block of lines
  67 to 86, with what it returns or raises and the world it leaves.
\<close>

definition optimize_image_for_web_try ::
  "env \<Rightarrow> path \<Rightarrow> path \<Rightarrow> nat \<times> nat \<Rightarrow> nat \<Rightarrow> string \<Rightarrow> world \<Rightarrow> (py_exc + bool) \<times> world" where
  "optimize_image_for_web_try E image_path output_path target_sz quality format w =
     (case Image_open E image_path w of
        Inl e \<Rightarrow> (Inl e, w)
      | Inr img \<Rightarrow>
         (case (if img_mode img \<in> set [''RGBA'', ''LA'', ''P'']
                then pil_convert E img ''RGB'' else Inr img) of
            Inl e \<Rightarrow> (Inl e, w)
          | Inr img1 \<Rightarrow>
             (case pil_thumbnail E img1 target_sz of
                Inl e \<Rightarrow> (Inl e, w)
              | Inr img2 \<Rightarrow>
                 (let save_kwargs =
                    \<lparr>kw_format = format, kw_quality = quality, kw_optimize = True,
                     kw_method = (if upper format = ''WEBP'' then Some 6 else None)\<rparr>
                  in case pil_save E w img2 output_path save_kwargs of
                       Saved b \<Rightarrow> (Inr True, w\<lparr>files := (files w)(output_path \<mapsto> File b)\<rparr>)
                     | SaveRaised e left \<Rightarrow>
                         (Inl e,
                          w\<lparr>files := (case left of None \<Rightarrow> files w
                                        | Some b \<Rightarrow> (files w)(output_path \<mapsto> File b))\<rparr>)))))"

text \<open>
  The function: the handler \<open>except Exception: return False\<close> of lines 87 and 88 is
  applied to what the block raises. Nothing removes the destination after a failed
  save. The call is logged with its outcome.
\<close>

definition optimize_image_for_web ::
  "env \<Rightarrow> path \<Rightarrow> path \<Rightarrow> nat \<times> nat \<Rightarrow> nat \<Rightarrow> string \<Rightarrow> world \<Rightarrow> (py_exc + bool) \<times> world" where
  "optimize_image_for_web E image_path output_path target_sz quality format w =
     (let (r, w') = optimize_image_for_web_try E image_path output_path target_sz quality format w;
          r' = (case r of Inr ok \<Rightarrow> Inr ok
                | Inl e \<Rightarrow> if is_Exception e then Inr False else Inl e)
      in (r', record_event (EvTranscode image_path output_path r') w'))"

text \<open>
  \<open>get_or_create_thumbnail\<close>, lines 90 to 110. The bare \<open>except\<close> of line 109
  turns whatever the block raises into \<open>return image_path\<close>.
\<close>

definition get_or_create_thumbnail_body :: "env \<Rightarrow> path \<Rightarrow> world \<Rightarrow> (py_exc + path) \<times> world" where
  "get_or_create_thumbnail_body E image_path w =
     (case get_image_hash E image_path w of
        (Inl e, w1) \<Rightarrow> (Inr image_path, w1)
      | (Inr image_hash, w1) \<Rightarrow>
          (let thumbnail_name = image_hash @ ''_thumb.webp'';
               thumbnail_path = os_path_join THUMBNAILS_DIR thumbnail_name;
               (found, w2) = os_path_exists thumbnail_path w1
           in if found then (Inr thumbnail_path, w2)
              else (case optimize_image_for_web E image_path thumbnail_path
                           THUMBNAIL_SIZE THUMBNAIL_QUALITY ''WebP'' w2 of
                      (Inr True, w3) \<Rightarrow> (Inr thumbnail_path, w3)
                    | (Inr False, w3) \<Rightarrow> (Inr image_path, w3)
                    | (Inl e, w3) \<Rightarrow> (Inr image_path, w3))))"

definition get_or_create_thumbnail :: "env \<Rightarrow> path \<Rightarrow> world \<Rightarrow> (py_exc + path) \<times> world" where
  "get_or_create_thumbnail E =
     st_cache_data thumbnail_memo thumbnail_memo_update (get_or_create_thumbnail_body E)"

text \<open>\<open>get_or_create_preview\<close>, lines 112 to 130.\<close>

definition get_or_create_preview_body :: "env \<Rightarrow> path \<Rightarrow> world \<Rightarrow> (py_exc + path) \<times> world" where
  "get_or_create_preview_body E image_path w =
     (case get_image_hash E image_path w of
        (Inl e, w1) \<Rightarrow> (Inr image_path, w1)
      | (Inr image_hash, w1) \<Rightarrow>
          (let preview_name = image_hash @ ''_preview.webp'';
               preview_path = os_path_join PREVIEWS_DIR preview_name;
               (found, w2) = os_path_exists preview_path w1
           in if found then (Inr preview_path, w2)
              else (case optimize_image_for_web E image_path preview_path
                           PREVIEW_SIZE PREVIEW_QUALITY ''WebP'' w2 of
                      (Inr True, w3) \<Rightarrow> (Inr preview_path, w3)
                    | (Inr False, w3) \<Rightarrow> (Inr image_path, w3)
                    | (Inl e, w3) \<Rightarrow> (Inr image_path, w3))))"

definition get_or_create_preview :: "env \<Rightarrow> path \<Rightarrow> world \<Rightarrow> (py_exc + path) \<times> world" where
  "get_or_create_preview E =
     st_cache_data preview_memo preview_memo_update (get_or_create_preview_body E)"

section \<open>The batch scheduler\<close>

text \<open>
  \<open>batch_process_thumbnails_silent\<close>, lines 132 to 151. Task \<open>i\<close> is the call
  \<open>get_or_create_thumbnail(image_paths[i])\<close> submitted to the pool, and the workers
  of the pool run the tasks side by side. A task is therefore a call in progress, which
  advances in steps that other tasks can come between:
  \<^item> \<open>Submitted\<close>: the call has not begun;
  \<^item> \<open>Hashed\<close>: the decorator found no stored result and line 96 has computed the
    key;
  \<^item> \<open>Missing\<close>: lines 97 to 101 have composed the thumbnail path and found no file
    there;
  \<^item> \<open>Returned\<close>: the call has returned (or raised), and the decorator has stored
    the value.
\<close>

datatype task =
    Submitted path
  | Hashed path string
  | Missing path path
  | Returned "py_exc + path"

fun is_Returned :: "task \<Rightarrow> bool" where
  "is_Returned (Returned r) = True"
| "is_Returned _ = False"

text \<open>
  One step of a task: the part of \<open>get_or_create_thumbnail\<close> between two of the
  points above, run on the world as it is then.
\<close>

fun task_step :: "env \<Rightarrow> task \<Rightarrow> world \<Rightarrow> task \<times> world" where
  "task_step E (Submitted image_path) w =
     (case thumbnail_memo w image_path of
        Some v \<Rightarrow> (Returned (Inr v), w)
      | None \<Rightarrow>
          (case get_image_hash E image_path w of
             (Inl e, w1) \<Rightarrow>
               (Returned (Inr image_path),
                thumbnail_memo_update (\<lambda>m. m(image_path \<mapsto> image_path)) w1)
           | (Inr image_hash, w1) \<Rightarrow> (Hashed image_path image_hash, w1)))"
| "task_step E (Hashed image_path image_hash) w =
     (let thumbnail_name = image_hash @ ''_thumb.webp'';
          thumbnail_path = os_path_join THUMBNAILS_DIR thumbnail_name;
          (found, w2) = os_path_exists thumbnail_path w
      in if found
         then (Returned (Inr thumbnail_path),
               thumbnail_memo_update (\<lambda>m. m(image_path \<mapsto> thumbnail_path)) w2)
         else (Missing image_path thumbnail_path, w2))"
| "task_step E (Missing image_path thumbnail_path) w =
     (case optimize_image_for_web E image_path thumbnail_path
             THUMBNAIL_SIZE THUMBNAIL_QUALITY ''WebP'' w of
        (Inr True, w3) \<Rightarrow>
          (Returned (Inr thumbnail_path),
           thumbnail_memo_update (\<lambda>m. m(image_path \<mapsto> thumbnail_path)) w3)
      | (Inr False, w3) \<Rightarrow>
          (Returned (Inr image_path),
           thumbnail_memo_update (\<lambda>m. m(image_path \<mapsto> image_path)) w3)
      | (Inl e, w3) \<Rightarrow>
          (Returned (Inr image_path),
           thumbnail_memo_update (\<lambda>m. m(image_path \<mapsto> image_path)) w3))"
| "task_step E (Returned r) w = (Returned r, w)"

text \<open>
  \<open>setup_thread_pool\<close>, lines 57 to 60: the pool has six workers, and they take the
  tasks in the order of submission. So a task can be running only while fewer than six
  of the tasks submitted before it are unfinished.
\<close>

definition max_workers :: nat where "max_workers = 6"

definition may_run :: "task list \<Rightarrow> nat \<Rightarrow> bool" where
  "may_run tasks i = (length (filter (\<lambda>t. \<not> is_Returned t) (take i tasks)) < max_workers)"

text \<open>
  The pool runs the tasks in an interleaving of its own: \<open>order\<close> names, step after
  step, the task that advances. A step of a task that was not submitted or cannot be
  running is skipped.
\<close>

fun run_pool :: "env \<Rightarrow> nat list \<Rightarrow> task list \<Rightarrow> world \<Rightarrow> task list \<times> world" where
  "run_pool E [] tasks w = (tasks, w)"
| "run_pool E (i # order) tasks w =
     (if i < length tasks \<and> may_run tasks i
      then (case task_step E (tasks ! i) w of
              (t, w') \<Rightarrow> run_pool E order (tasks[i := t]) w')
      else run_pool E order tasks w)"

text \<open>A task has raised when its call ended in an exception.\<close>

fun raised :: "task \<Rightarrow> bool" where
  "raised (Returned (Inl e)) = True"
| "raised _ = False"

text \<open>
  \<open>future.result(timeout=10)\<close>: the value the task returned, the exception it raised,
  or \<open>TimeoutError\<close> when the task is late (\<open>late i\<close>) or has not returned.
\<close>

definition future_result :: "task list \<Rightarrow> (nat \<Rightarrow> bool) \<Rightarrow> nat \<Rightarrow> py_exc + path" where
  "future_result tasks late i =
     (if late i \<or> length tasks \<le> i then Inl TimeoutError
      else case tasks ! i of Returned r \<Rightarrow> r | _ \<Rightarrow> Inl TimeoutError)"

text \<open>
  The loop of lines 143 to 149 over \<open>futures\<close>, with \<open>results\<close> as built so far. An
  exception that \<open>except Exception\<close> does not catch leaves the loop and the function.
\<close>

fun await_results ::
  "(nat \<Rightarrow> py_exc + path) \<Rightarrow> (nat \<times> path) list \<Rightarrow> (path \<times> path) list \<Rightarrow> py_exc + (path \<times> path) list" where
  "await_results result [] results = Inr results"
| "await_results result ((future, original_path) # futures) results =
     (case result future of
        Inr thumbnail_path \<Rightarrow>
          await_results result futures (results @ [(original_path, thumbnail_path)])
      | Inl e \<Rightarrow>
          if is_Exception e
          then await_results result futures (results @ [(original_path, original_path)])
          else Inl e)"

definition batch_process_thumbnails_silent ::
  "env \<Rightarrow> nat list \<Rightarrow> (nat \<Rightarrow> bool) \<Rightarrow> path list \<Rightarrow> world \<Rightarrow> (py_exc + (path \<times> path) list) \<times> world" where
  "batch_process_thumbnails_silent E order late image_paths w =
     (let futures = zip [0..<length image_paths] image_paths;
          (tasks, w') = run_pool E order (map Submitted image_paths) w
      in (await_results (future_result tasks late) futures [], w'))"

text \<open>
  The words of the specification, to compare the batch with: one resolution for each
  input, in the order of the input. \<open>in_turn n\<close> is the interleaving in which the
  \<open>n\<close> tasks run one after the other, each through its three steps.
\<close>

fun resolve_each :: "env \<Rightarrow> path list \<Rightarrow> world \<Rightarrow> (path \<times> path) list \<times> world" where
  "resolve_each E [] w = ([], w)"
| "resolve_each E (p # ps) w =
     (case get_or_create_thumbnail E p w of
        (r, w1) \<Rightarrow>
          (case resolve_each E ps w1 of
             (rs, w2) \<Rightarrow> ((p, case r of Inr t \<Rightarrow> t | Inl e \<Rightarrow> p) # rs, w2)))"

definition in_turn :: "nat \<Rightarrow> nat list" where
  "in_turn n = concat (map (\<lambda>i. [i, i, i]) [0..<n])"

section \<open>The gallery lister\<close>

definition endswith :: "string \<Rightarrow> string \<Rightarrow> bool" where
  "endswith s suf = (length suf \<le> length s \<and> drop (length s - length suf) s = suf)"

text \<open>\<open>s.replace(old, new)\<close> for patterns of one character.\<close>

definition replace_char :: "char \<Rightarrow> char \<Rightarrow> string \<Rightarrow> string" where
  "replace_char old new s = map (\<lambda>c. if c = old then new else c) s"

definition extensiones :: "string list" where
  "extensiones = [''jpg'', ''jpeg'', ''png'', ''webp'', ''JPG'', ''JPEG'', ''PNG'', ''WEBP'']"

text \<open>
  \<open>obtener_imagenes_galeria\<close>, lines 155 to 172. \<open>sorted(list(imagenes_set))\<close> is
  the ascending list of the distinct elements, whatever order the set iterates in.
  Strings are ordered as Python orders them: character by character by code, a proper
  prefix before its extensions. The test of line 166 looks at the last characters of
  the lower-cased name only, and no character outside ASCII has one of the letters of
  the four extensions as its lower case, so \<open>lower\<close> decides it as \<open>str.lower\<close> does.
\<close>

definition obtener_imagenes_galeria_body :: "string \<Rightarrow> world \<Rightarrow> (py_exc + path list) \<times> world" where
  "obtener_imagenes_galeria_body nombre_galeria w =
     (let ruta_galeria = ''imagenes/Galerias/'' @ nombre_galeria;
          (found, w1) = os_path_exists ruta_galeria w
      in if found then
           (case os_listdir ruta_galeria w1 of
              (Inl e, w2) \<Rightarrow> (Inl e, w2)
            | (Inr listing, w2) \<Rightarrow>
                (let imagenes_set =
                       map (\<lambda>archivo. replace_char (CHR 0x5C) CHR ''/'' (os_path_join ruta_galeria archivo))
                         (filter (\<lambda>archivo.
                              list_ex (\<lambda>ext. endswith (lower archivo) (''.'' @ lower ext)) extensiones)
                            listing)
                 in (Inr (sort (remdups imagenes_set)), w2)))
         else (Inr [], w1))"

definition obtener_imagenes_galeria :: "string \<Rightarrow> world \<Rightarrow> (py_exc + path list) \<times> world" where
  "obtener_imagenes_galeria =
     st_cache_data gallery_memo gallery_memo_update obtener_imagenes_galeria_body"

text \<open>
  The words of the specification, to compare the lister with: a name is an image name
  when, compared without regard to case, it ends with one of the extensions jpg, jpeg,
  png and webp; \<open>gallery_path\<close> is the path under which the lister reports a name.
\<close>

definition has_image_extension :: "string \<Rightarrow> bool" where
  "has_image_extension name =
     (\<exists>ext \<in> {''jpg'', ''jpeg'', ''png'', ''webp''}. endswith (lower name) (''.'' @ ext))"

definition gallery_path :: "string \<Rightarrow> string \<Rightarrow> path" where
  "gallery_path g =
     (\<lambda>name. replace_char (CHR 0x5C) CHR ''/'' (os_path_join (''imagenes/Galerias/'' @ g) name))"

section \<open>Pagination of the gallery view\<close>

text \<open>
  The slice \<open>xs[i:j]\<close> of Python: a negative bound counts from the end, and both
  bounds are cut to the list; it is empty when the bounds cross.
\<close>

definition py_slice :: "'a list \<Rightarrow> int \<Rightarrow> int \<Rightarrow> 'a list" where
  "py_slice xs i j =
     (let n = int (length xs);
          a = (if i < 0 then max (i + n) 0 else min i n);
          b = (if j < 0 then max (j + n) 0 else min j n)
      in take (nat (b - a)) (drop (nat a) xs))"

text \<open>
  The widgets of \<open>mostrar_galeria_optimizada_final\<close> that write the entry
  \<open>page_<gallery>\<close> of the session state: the four pagination buttons of lines 205
  to 225 and the back button of line 355.
\<close>

datatype boton = Primera | Anterior | Siguiente | Ultima | Volver

record pagina =
  start_idx :: int
  end_idx :: int
  imagenes_pagina :: "path list"

text \<open>
  One run of \<open>mostrar_galeria_optimizada_final\<close> (lines 174 to 362) as far as the
  page entry goes: \<open>imagenes\<close> is what \<open>obtener_imagenes_galeria\<close> returned in this
  run, \<open>clicked\<close> the button pressed, if any, and \<open>page\<close> the entry
  \<open>page_<gallery>\<close> of the session state (\<open>None\<close> when absent). The result is the
  entry after the run and the page shown; no page is shown when the run returns early
  (line 186) or ends in \<open>st.rerun()\<close>. A disabled button cannot be pressed, and the
  pagination buttons exist only when there is more than one page.
\<close>

definition mostrar_galeria_optimizada_final ::
  "path list \<Rightarrow> boton option \<Rightarrow> int option \<Rightarrow> int option \<times> pagina option" where
  "mostrar_galeria_optimizada_final imagenes clicked page =
     (if imagenes = [] then (page, None)
      else
        let total_imagenes = int (length imagenes);
            current_page = (case page of None \<Rightarrow> 0 | Some p \<Rightarrow> p);
            total_pages = (total_imagenes + IMAGES_PER_PAGE - 1) div IMAGES_PER_PAGE
        in if total_pages > 1 \<and> clicked = Some Primera \<and> \<not> current_page = 0
           then (Some 0, None)
           else if total_pages > 1 \<and> clicked = Some Anterior \<and> \<not> current_page = 0
           then (Some (max 0 (current_page - 1)), None)
           else if total_pages > 1 \<and> clicked = Some Siguiente \<and> \<not> current_page \<ge> total_pages - 1
           then (Some (min (total_pages - 1) (current_page + 1)), None)
           else if total_pages > 1 \<and> clicked = Some Ultima \<and> \<not> current_page \<ge> total_pages - 1
           then (Some (total_pages - 1), None)
           else
             let start_idx = current_page * IMAGES_PER_PAGE;
                 end_idx = min (start_idx + IMAGES_PER_PAGE) total_imagenes;
                 imagenes_pagina = py_slice imagenes start_idx end_idx
             in if clicked = Some Volver then (None, None)
                else (Some current_page,
                      Some \<lparr>start_idx = start_idx, end_idx = end_idx,
                            imagenes_pagina = imagenes_pagina\<rparr>))"

section \<open>The size of a thumbnail\<close>

text \<open>
  Modelled from the spec: the transcoder resizes so that the image fits within the
  bounding box, preserving the aspect ratio, and never upscales beyond the original
  size. In the code this is the call \<open>img.thumbnail(target_size, Image.Resampling.LANCZOS)\<close> of
  line 73, and \<open>Image.thumbnail\<close> belongs to Pillow, not to the repository. The
  definitions below follow the method of the library, with exact arithmetic where the
  library divides floating-point numbers.

  \<open>round_aspect a b closer\<close> is the library's \<open>round_aspect(number, key)\<close> for the
  number \<open>a / b\<close>, that is \<open>max(min(floor(number), ceil(number), key=key), 1)\<close>;
  \<open>closer lo hi\<close> says that the key of \<open>lo\<close> is at most the key of \<open>hi\<close>.
\<close>

definition round_aspect :: "nat \<Rightarrow> nat \<Rightarrow> (nat \<Rightarrow> nat \<Rightarrow> bool) \<Rightarrow> nat" where
  "round_aspect a b closer =
     (let lo = a div b; hi = (a + b - 1) div b
      in max (if closer lo hi then lo else hi) 1)"

text \<open>
  Modelled from the spec: \<open>thumbnail_size sz box\<close> is the size \<open>Image.thumbnail\<close>
  gives an image of size \<open>sz\<close> for the box \<open>box\<close>. An image that fits the box keeps
  its size. Otherwise \<open>aspect = width / height\<close>, and when \<open>x / y >= aspect\<close> the
  height is that of the box and the width is \<open>round_aspect(y * aspect)\<close> with the key
  \<open>abs(aspect - n / y)\<close>; else the width is that of the box and the height is
  \<open>round_aspect(x / aspect)\<close> with the key \<open>0 if n == 0 else abs(aspect - x / n)\<close>.
  The two divisions raise \<open>ZeroDivisionError\<close> for a height of zero.
\<close>

definition thumbnail_size :: "nat \<times> nat \<Rightarrow> nat \<times> nat \<Rightarrow> py_exc + nat \<times> nat" where
  "thumbnail_size sz box =
     (case sz of (width, height) \<Rightarrow> case box of (x, y) \<Rightarrow>
        if width \<le> x \<and> height \<le> y then Inr (width, height)
        else if height = 0 \<or> y = 0 then Inl ZeroDivisionError
        else if width * y \<le> x * height
        then Inr (round_aspect (y * width) height
                    (\<lambda>lo hi. \<bar>int width * int y - int lo * int height\<bar>
                              \<le> \<bar>int width * int y - int hi * int height\<bar>), y)
        else Inr (x, round_aspect (x * height) width
                    (\<lambda>lo hi. lo = 0 \<or>
                       \<bar>int width * int lo - int x * int height\<bar> * int hi
                         \<le> \<bar>int width * int hi - int x * int height\<bar> * int lo)))"

text \<open>
  Modelled from the spec: what the library does to the size of an image on its way
  through the transcoder. The decoded image \<open>img\<close> has at least one pixel in each
  direction, \<open>img.convert\<close> keeps the size (\<open>img1\<close>), and \<open>img.thumbnail\<close> makes
  the size \<open>thumbnail_size\<close> gives (\<open>out\<close>).
\<close>

definition pillow_sizes :: "image \<Rightarrow> image \<Rightarrow> image \<Rightarrow> nat \<times> nat \<Rightarrow> bool" where
  "pillow_sizes img img1 out box =
     (0 < fst (img_size img) \<and> 0 < snd (img_size img) \<and>
      img_size img1 = img_size img \<and>
      thumbnail_size (img_size img1) box = Inr (img_size out))"

section \<open>Example instances\<close>

text \<open>
  A small instance of the libraries and of the file system, on which the functions
  above can be run: every non-empty file decodes to an RGBA image of 1000 by 500
  pixels, and a save writes the image data.
\<close>

definition example_env :: env where
  "example_env =
     \<lparr>hashlib_md5 = (\<lambda>data. of_nat (length data)),
      builtin_hash = (\<lambda>s. of_nat (length s)),
      pil_open = (\<lambda>data. if data = [] then Inl UnidentifiedImageError
                          else Inr \<lparr>img_mode = ''RGBA'', img_size = (1000, 500), img_data = data\<rparr>),
      pil_convert = (\<lambda>img m. Inr (img\<lparr>img_mode := m\<rparr>)),
      pil_thumbnail = (\<lambda>img box. Inr (img\<lparr>img_size := box\<rparr>)),
      pil_save = (\<lambda>w img p kw. Saved (img_data img))\<rparr>"

text \<open>The same libraries on a full disk: every save raises after writing two bytes.\<close>

definition full_disk_env :: env where
  "full_disk_env = example_env\<lparr>pil_save := (\<lambda>w img p kw. SaveRaised OSError (Some [0x52, 0x49]))\<rparr>"

definition example_world :: world where
  "example_world =
     \<lparr>files = [''a.jpg'' \<mapsto> File [1, 2, 3], ''b.jpg'' \<mapsto> File [1, 2, 3],
               ''bad.jpg'' \<mapsto> File [], ''locked.jpg'' \<mapsto> Unreadable,
               ''imagenes/Galerias/boda'' \<mapsto> Dir [''photo1.JPG'', ''photo1.jpg'', ''notes.txt'']],
      hash_memo = Map.empty, thumbnail_memo = Map.empty, preview_memo = Map.empty,
      gallery_memo = Map.empty, log = []\<rparr>"

text \<open>
  The libraries of the example with Pillow's sizes: every non-empty file decodes to an
  image of 1000 by 667 pixels, and \<open>img.thumbnail\<close> gives it the size
  \<open>thumbnail_size\<close> computes.
\<close>

definition pillow_env :: env where
  "pillow_env =
     example_env
       \<lparr>pil_open := (\<lambda>data. if data = [] then Inl UnidentifiedImageError
                           else Inr \<lparr>img_mode = ''RGBA'', img_size = (1000, 667), img_data = data\<rparr>),
        pil_thumbnail :=
          (\<lambda>img box. case thumbnail_size (img_size img) box of
                        Inl e \<Rightarrow> Inl e
                      | Inr sz \<Rightarrow> Inr (img\<lparr>img_size := sz\<rparr>))\<rparr>"

text \<open>
  The world in which \<open>get_image_hash\<close> was called for \<open>locked.jpg\<close> while the file
  could not be read, and in which the file has become readable since, with the bytes of
  \<open>a.jpg\<close>: the table of \<open>get_image_hash\<close> holds the fallback key of the path.
\<close>

definition stale_world :: world where
  "stale_world =
     (snd (get_image_hash example_env ''locked.jpg'' example_world))
       \<lparr>files := (files example_world)(''locked.jpg'' \<mapsto> File [1, 2, 3])\<rparr>"

text \<open>
  The world in which the gallery \<open>boda\<close> was listed, and in which its directory has
  been removed since: the table of \<open>obtener_imagenes_galeria\<close> holds the listing.
\<close>

definition emptied_world :: world where
  "emptied_world =
     (snd (obtener_imagenes_galeria ''boda'' example_world))
       \<lparr>files := (files example_world)(''imagenes/Galerias/boda'' := None)\<rparr>"

section \<open>Lengths of keys\<close>

lemma length_str_nat: "0 < k \<Longrightarrow> n < 10 ^ k \<Longrightarrow> length (str_nat n) \<le> k"
proof (induction k arbitrary: n)
  case 0
  then show ?case by simp
next
  case (Suc k)
  show ?case
  proof (cases "n < 10")
    case True
    then show ?thesis by (simp add: str_nat.simps [of n])
  next
    case False
    then have k: "0 < k"
      using Suc.prems by (cases k) auto
    have "n div 10 < 10 ^ k"
      using Suc.prems by (simp add: less_mult_imp_div_less mult.commute)
    then have "length (str_nat (n div 10)) \<le> k"
      using Suc.IH k by blast
    then show ?thesis
      using False by (simp add: str_nat.simps [of n])
  qed
qed

lemma length_str_int_sint: "length (str_int (sint (h :: 64 word))) \<le> 20"
proof -
  have lo: "- (2 ^ 63) \<le> sint h" using sint_ge [of h] by simp
  have hi: "sint h < 2 ^ 63" using sint_lt [of h] by simp
  have b: "(2::nat) ^ 63 < 10 ^ 19" by simp
  show ?thesis
  proof (cases "sint h < 0")
    case True
    then have "nat (- sint h) \<le> 2 ^ 63" using lo by simp
    then have "nat (- sint h) < 10 ^ 19" using b by linarith
    then have "length (str_nat (nat (- sint h))) \<le> 19"
      by (rule length_str_nat [rotated]) simp
    then show ?thesis using True by (simp add: str_int_def)
  next
    case False
    then have "nat (sint h) < 2 ^ 63" using hi by simp
    then have "nat (sint h) < 10 ^ 19" using b by linarith
    then have "length (str_nat (nat (sint h))) \<le> 19"
      by (rule length_str_nat [rotated]) simp
    then show ?thesis using False by (simp add: str_int_def)
  qed
qed

lemma length_hexdigest: "length (hexdigest d) = 32"
  by (simp add: hexdigest_def)

lemma fallback_key_not_hexdigest: "str_int (sint (h :: 64 word)) \<noteq> hexdigest d"
proof
  assume "str_int (sint h) = hexdigest d"
  then have "length (str_int (sint h)) = 32" by (simp add: length_hexdigest)
  then show False using length_str_int_sint [of h] by simp
qed

section \<open>Memoized calls\<close>

lemma st_cache_data_fresh:
  "memo_fresh (table w) k (fst (body k w)) \<Longrightarrow> fst (st_cache_data table upd body k w) = fst (body k w)"
  by (cases "table w k"; cases "body k w"; cases "fst (body k w)")
     (auto simp: memo_fresh_def st_cache_data_def)

section \<open>The filter and the paths of the lister\<close>

lemma lower_exts: "map lower extensiones = [''jpg'', ''jpeg'', ''png'', ''webp'', ''jpg'', ''jpeg'', ''png'', ''webp'']"
  by (simp add: extensiones_def lower_def lower_char_def)

lemma filter_has_image_extension:
  "list_ex (\<lambda>ext. endswith (lower archivo) (''.'' @ lower ext)) extensiones = has_image_extension archivo"
proof -
  have "list_ex (\<lambda>ext. endswith (lower archivo) (''.'' @ lower ext)) extensiones
        = list_ex (\<lambda>e. endswith (lower archivo) (''.'' @ e)) (map lower extensiones)"
    by (simp add: list_ex_iff)
  also have "\<dots> = has_image_extension archivo"
    unfolding lower_exts by (auto simp: has_image_extension_def)
  finally show ?thesis .
qed

lemma galeria_body_missing:
  "files w (''imagenes/Galerias/'' @ g) = None \<Longrightarrow> fst (obtener_imagenes_galeria_body g w) = Inr []"
  by (simp add: obtener_imagenes_galeria_body_def os_path_exists_def)

lemma galeria_body_dir:
  assumes "files w (''imagenes/Galerias/'' @ g) = Some (Dir names)"
  shows "fst (obtener_imagenes_galeria_body g w) = Inr (sort (remdups (map (gallery_path g) (filter has_image_extension names))))"
proof -
  have p: "(\<lambda>archivo. list_ex (\<lambda>ext. endswith (lower archivo) (''.'' @ lower ext)) extensiones) = has_image_extension"
    by (rule ext) (rule filter_has_image_extension)
  show ?thesis
    unfolding obtener_imagenes_galeria_body_def p
    using assms by (simp add: os_path_exists_def os_listdir_def record_event_def Let_def gallery_path_def)
qed


lemma endswith_suffix: "endswith s suf \<longleftrightarrow> suffix suf s"
proof
  assume "endswith s suf"
  then have "drop (length s - length suf) s = suf"
    by (simp add: endswith_def)
  then have "s = take (length s - length suf) s @ suf"
    by (metis append_take_drop_id)
  then show "suffix suf s" by (rule suffixI)
next
  assume "suffix suf s"
  then show "endswith s suf" by (auto simp: suffix_def endswith_def)
qed

lemma suffix_after_slash:
  assumes "CHR ''/'' \<notin> set suf" and "pre = [] \<or> last pre = CHR ''/''"
  shows "suffix suf (pre @ a) \<longleftrightarrow> suffix suf a"
proof
  assume "suffix suf (pre @ a)"
  then consider "suffix suf a" | s' where "suf = s' @ a" "suffix s' pre"
    by (auto simp: suffix_append)
  then show "suffix suf a"
  proof cases
    case 1
    then show ?thesis .
  next
    case 2
    show ?thesis
    proof (cases "s' = []")
      case True
      then show ?thesis using 2 by simp
    next
      case False
      then have "pre \<noteq> []" using 2 by auto
      moreover have "last s' = last pre"
        using 2 False by (auto simp: suffix_def)
      ultimately have "CHR ''/'' \<in> set s'"
        using assms(2) False by (metis last_in_set)
      then show ?thesis using assms(1) 2 by simp
    qed
  qed
next
  assume "suffix suf a"
  then show "suffix suf (pre @ a)" by (simp add: suffix_appendI)
qed

lemma map_eq_avoiding:
  assumes "\<And>c s. s \<in> set suf \<Longrightarrow> f c = s \<longleftrightarrow> g c = s"
  shows "map f ys = suf \<longleftrightarrow> map g ys = suf"
  using assms
proof (induction ys arbitrary: suf)
  case Nil
  then show ?case by simp
next
  case (Cons y ys)
  show ?case
  proof (cases suf)
    case Nil
    then show ?thesis by simp
  next
    case (Cons s ss)
    have "map f ys = ss \<longleftrightarrow> map g ys = ss"
      by (rule Cons.IH) (simp add: Cons.prems Cons)
    moreover have "f y = s \<longleftrightarrow> g y = s"
      by (rule Cons.prems) (simp add: Cons)
    ultimately show ?thesis using Cons by simp
  qed
qed

lemma lower_char_slash: "lower_char c = CHR ''/'' \<longleftrightarrow> c = CHR ''/''"
  by (auto simp: lower_char_def split: option.splits if_splits)

lemma lower_char_backslash: "lower_char c = CHR 0x5C \<longleftrightarrow> c = CHR 0x5C"
  by (auto simp: lower_char_def split: option.splits if_splits)

lemma os_path_join_suffix:
  "\<exists>pre. os_path_join d a = pre @ a \<and> (pre = [] \<or> last pre = CHR ''/'')"
proof -
  consider "a \<noteq> [] \<and> hd a = CHR ''/''" | "\<not> (a \<noteq> [] \<and> hd a = CHR ''/'')" "d = [] \<or> last d = CHR ''/''"
    | "\<not> (a \<noteq> [] \<and> hd a = CHR ''/'')" "\<not> (d = [] \<or> last d = CHR ''/'')"
    by blast
  then show ?thesis
  proof cases
    case 1
    then have "os_path_join d a = [] @ a" by (simp add: os_path_join_def)
    then show ?thesis by blast
  next
    case 2
    then have "os_path_join d a = d @ a" by (auto simp: os_path_join_def)
    then show ?thesis using 2 by blast
  next
    case 3
    then have "os_path_join d a = (d @ ''/'') @ a" by (auto simp: os_path_join_def)
    moreover have "last (d @ ''/'') = CHR ''/''" by simp
    ultimately show ?thesis by blast
  qed
qed

lemma has_image_extension_gallery_path: "has_image_extension (gallery_path g a) \<longleftrightarrow> has_image_extension a"
proof -
  define r where "r = (\<lambda>c. if c = CHR 0x5C then CHR ''/'' else c)"
  define d where "d = ''imagenes/Galerias/'' @ g"
  obtain pre where pre: "os_path_join d a = pre @ a" "pre = [] \<or> last pre = CHR ''/''"
    using os_path_join_suffix by blast
  have "gallery_path g a = map r (os_path_join d a)"
    unfolding gallery_path_def d_def replace_char_def r_def ..
  then have low: "lower (gallery_path g a) = map (lower_char \<circ> r) pre @ map (lower_char \<circ> r) a"
    by (simp add: pre lower_def)
  have pre': "map (lower_char \<circ> r) pre = [] \<or> last (map (lower_char \<circ> r) pre) = CHR ''/''"
  proof (cases "pre = []")
    case True
    then show ?thesis by simp
  next
    case False
    then have "last pre = CHR ''/''" using pre(2) by simp
    then have "last (map (lower_char \<circ> r) pre) = CHR ''/''"
      using False by (simp add: last_map r_def lower_char_slash)
    then show ?thesis ..
  qed
  have one: "endswith (lower (gallery_path g a)) suf \<longleftrightarrow> endswith (lower a) suf"
    if avoid: "CHR ''/'' \<notin> set suf" "CHR 0x5C \<notin> set suf" for suf
  proof -
    have "endswith (lower (gallery_path g a)) suf \<longleftrightarrow> suffix suf (map (lower_char \<circ> r) a)"
      unfolding endswith_suffix low by (rule suffix_after_slash [OF avoid(1) pre'])
    also have "\<dots> \<longleftrightarrow> endswith (map (lower_char \<circ> r) a) suf"
      by (simp add: endswith_suffix)
    also have "\<dots> \<longleftrightarrow> endswith (map lower_char a) suf"
    proof -
      have "map (lower_char \<circ> r) ys = suf \<longleftrightarrow> map lower_char ys = suf" for ys
      proof (rule map_eq_avoiding)
        fix c s assume "s \<in> set suf"
        then have "s \<noteq> CHR ''/''" "s \<noteq> CHR 0x5C" using avoid by auto
        then show "(lower_char \<circ> r) c = s \<longleftrightarrow> lower_char c = s"
          by (auto simp: r_def lower_char_slash lower_char_backslash)
      qed
      then have "map (lower_char \<circ> r) (drop k a) = suf \<longleftrightarrow> map lower_char (drop k a) = suf" for k
        by blast
      then show ?thesis
        by (simp add: endswith_def drop_map)
    qed
    finally show ?thesis by (simp add: lower_def)
  qed
  show ?thesis
    unfolding has_image_extension_def by (simp add: one)
qed

section \<open>The shape of a call\<close>

lemma get_image_hash_cases:
  obtains (hit) k where "hash_memo w p = Some k" "get_image_hash E p w = (Inr k, w)"
  | (miss) k where "hash_memo w p = None" "fst (get_image_hash_body E p w) = Inr k"
      "get_image_hash E p w = (Inr k, w\<lparr>hash_memo := (hash_memo w)(p \<mapsto> k), log := log w @ [EvRead p]\<rparr>)"
proof (cases "hash_memo w p")
  case None
  obtain k where k: "fst (get_image_hash_body E p w) = Inr k"
    by (cases "open_read p w") (auto simp: get_image_hash_body_def)
  then have "get_image_hash_body E p w = (Inr k, record_event (EvRead p) w)"
    by (simp add: get_image_hash_body_def)
  then have "get_image_hash E p w = (Inr k, w\<lparr>hash_memo := (hash_memo w)(p \<mapsto> k), log := log w @ [EvRead p]\<rparr>)"
    using None by (simp add: get_image_hash_def st_cache_data_def record_event_def)
  then show ?thesis using None k miss by blast
next
  case (Some k)
  then have "get_image_hash E p w = (Inr k, w)"
    by (simp add: get_image_hash_def st_cache_data_def)
  then show ?thesis using Some hit by blast
qed

lemma optimize_try_shape:
  "(\<exists>b data. open_read src w = Inr data \<and>
      optimize_image_for_web_try E src dst sz q fmt w = (Inr True, w\<lparr>files := (files w)(dst \<mapsto> File b)\<rparr>)) \<or>
   (\<exists>e fs. (fs = files w \<or> (\<exists>b data. open_read src w = Inr data \<and> fs = (files w)(dst \<mapsto> File b))) \<and>
      optimize_image_for_web_try E src dst sz q fmt w = (Inl e, w\<lparr>files := fs\<rparr>))"
proof (cases "Image_open E src w")
  case (Inl e)
  then have "optimize_image_for_web_try E src dst sz q fmt w = (Inl e, w\<lparr>files := files w\<rparr>)"
    by (simp add: optimize_image_for_web_try_def)
  then show ?thesis by blast
next
  case (Inr img)
  then obtain data where data: "open_read src w = Inr data"
    by (auto simp: Image_open_def split: sum.splits)
  let ?conv = "if img_mode img \<in> set [''RGBA'', ''LA'', ''P''] then pil_convert E img ''RGB'' else Inr img"
  show ?thesis
  proof (cases ?conv)
    case (Inl e)
    then have "optimize_image_for_web_try E src dst sz q fmt w = (Inl e, w\<lparr>files := files w\<rparr>)"
      using Inr by (simp add: optimize_image_for_web_try_def)
    then show ?thesis by blast
  next
    case conv: (Inr img1)
    show ?thesis
    proof (cases "pil_thumbnail E img1 sz")
      case (Inl e)
      then have "optimize_image_for_web_try E src dst sz q fmt w = (Inl e, w\<lparr>files := files w\<rparr>)"
        using Inr conv by (simp add: optimize_image_for_web_try_def)
      then show ?thesis by blast
    next
      case thumb: (Inr img2)
      let ?kw = "\<lparr>kw_format = fmt, kw_quality = q, kw_optimize = True,
                        kw_method = (if upper fmt = ''WEBP'' then Some 6 else None)\<rparr>"
      show ?thesis
      proof (cases "pil_save E w img2 dst ?kw")
        case (Saved b)
        then have "optimize_image_for_web_try E src dst sz q fmt w = (Inr True, w\<lparr>files := (files w)(dst \<mapsto> File b)\<rparr>)"
          using Inr conv thumb by (simp add: optimize_image_for_web_try_def)
        then show ?thesis using data by blast
      next
        case (SaveRaised e left)
        then have "optimize_image_for_web_try E src dst sz q fmt w =
            (Inl e, w\<lparr>files := (case left of None \<Rightarrow> files w | Some b \<Rightarrow> (files w)(dst \<mapsto> File b))\<rparr>)"
          using Inr conv thumb by (simp add: optimize_image_for_web_try_def)
        moreover have "(case left of None \<Rightarrow> files w | Some b \<Rightarrow> (files w)(dst \<mapsto> File b)) = files w \<or>
            (\<exists>b data. open_read src w = Inr data \<and>
               (case left of None \<Rightarrow> files w | Some b \<Rightarrow> (files w)(dst \<mapsto> File b)) = (files w)(dst \<mapsto> File b))"
          using data by (cases left) auto
        ultimately show ?thesis by blast
      qed
    qed
  qed
qed


lemma optimize_shape:
  "(\<exists>b data. open_read src w = Inr data \<and>
      optimize_image_for_web E src dst sz q fmt w =
        (Inr True, w\<lparr>files := (files w)(dst \<mapsto> File b), log := log w @ [EvTranscode src dst (Inr True)]\<rparr>)) \<or>
   (\<exists>r fs. (r = Inr False \<or> (\<exists>e. r = Inl e \<and> \<not> is_Exception e)) \<and>
      (fs = files w \<or> (\<exists>b data. open_read src w = Inr data \<and> fs = (files w)(dst \<mapsto> File b))) \<and>
      optimize_image_for_web E src dst sz q fmt w =
        (r, w\<lparr>files := fs, log := log w @ [EvTranscode src dst r]\<rparr>))"
proof -
  consider (ok) b data where "open_read src w = Inr data"
      "optimize_image_for_web_try E src dst sz q fmt w = (Inr True, w\<lparr>files := (files w)(dst \<mapsto> File b)\<rparr>)"
    | (failed) e fs where "fs = files w \<or> (\<exists>b data. open_read src w = Inr data \<and> fs = (files w)(dst \<mapsto> File b))"
      "optimize_image_for_web_try E src dst sz q fmt w = (Inl e, w\<lparr>files := fs\<rparr>)"
    using optimize_try_shape [of src w E dst sz q fmt] by blast
  then show ?thesis
  proof cases
    case ok
    then have "open_read src w = Inr data \<and> optimize_image_for_web E src dst sz q fmt w =
        (Inr True, w\<lparr>files := (files w)(dst \<mapsto> File b), log := log w @ [EvTranscode src dst (Inr True)]\<rparr>)"
      by (simp add: optimize_image_for_web_def record_event_def Let_def)
    then show ?thesis by blast
  next
    case failed
    let ?r = "if is_Exception e then Inr False else Inl e"
    have "optimize_image_for_web E src dst sz q fmt w = (?r, w\<lparr>files := fs, log := log w @ [EvTranscode src dst ?r]\<rparr>)"
      using failed(2) by (simp add: optimize_image_for_web_def record_event_def Let_def)
    moreover have "?r = Inr False \<or> (\<exists>e. ?r = Inl e \<and> \<not> is_Exception e)"
      by simp
    ultimately show ?thesis using failed(1) by blast
  qed
qed


lemma open_read_files: "files w' = files w \<Longrightarrow> open_read p w' = open_read p w"
  by (simp add: open_read_def)

lemma thumbnail_body_shape:
  "\<exists>k evh.
     (hash_memo w p = Some k \<and> evh = [] \<or>
      hash_memo w p = None \<and> fst (get_image_hash_body E p w) = Inr k \<and> evh = [EvRead p]) \<and>
     (let tp = os_path_join THUMBNAILS_DIR (k @ ''_thumb.webp'');
          w1 = w\<lparr>hash_memo := (hash_memo w)(p \<mapsto> k)\<rparr>
      in (files w tp \<noteq> None \<and>
          get_or_create_thumbnail_body E p w = (Inr tp, w1\<lparr>log := log w @ evh @ [EvExists tp]\<rparr>)) \<or>
         (files w tp = None \<and>
          (\<exists>b data. open_read p w = Inr data \<and>
             get_or_create_thumbnail_body E p w =
               (Inr tp, w1\<lparr>files := (files w)(tp \<mapsto> File b),
                           log := log w @ evh @ [EvExists tp, EvTranscode p tp (Inr True)]\<rparr>))) \<or>
         (files w tp = None \<and>
          (\<exists>res fs. (res = Inr False \<or> (\<exists>e. res = Inl e \<and> \<not> is_Exception e)) \<and>
             (fs = files w \<or> (\<exists>b data. open_read p w = Inr data \<and> fs = (files w)(tp \<mapsto> File b))) \<and>
             get_or_create_thumbnail_body E p w =
               (Inr p, w1\<lparr>files := fs,
                          log := log w @ evh @ [EvExists tp, EvTranscode p tp res]\<rparr>))))"
proof -
  obtain k evh where h: "hash_memo w p = Some k \<and> evh = [] \<or>
      hash_memo w p = None \<and> fst (get_image_hash_body E p w) = Inr k \<and> evh = [EvRead p]"
    and hw: "get_image_hash E p w = (Inr k, w\<lparr>hash_memo := (hash_memo w)(p \<mapsto> k), log := log w @ evh\<rparr>)"
  proof (cases rule: get_image_hash_cases [of w p E])
    case (hit k)
    then have "(hash_memo w)(p \<mapsto> k) = hash_memo w" by (simp add: map_upd_triv)
    then have "get_image_hash E p w = (Inr k, w\<lparr>hash_memo := (hash_memo w)(p \<mapsto> k), log := log w @ []\<rparr>)"
      using hit by simp
    then show ?thesis using hit that by blast
  next
    case (miss k)
    then show ?thesis using that by blast
  qed
  define tp where "tp = os_path_join THUMBNAILS_DIR (k @ ''_thumb.webp'')"
  define w1 where "w1 = w\<lparr>hash_memo := (hash_memo w)(p \<mapsto> k)\<rparr>"
  define w2 where "w2 = w1\<lparr>log := log w @ evh @ [EvExists tp]\<rparr>"
  have f2: "files w2 = files w" and l2: "log w2 = log w @ evh @ [EvExists tp]"
    by (simp_all add: w2_def w1_def)
  have body: "get_or_create_thumbnail_body E p w =
     (if files w tp \<noteq> None then (Inr tp, w2)
      else (case optimize_image_for_web E p tp THUMBNAIL_SIZE THUMBNAIL_QUALITY ''WebP'' w2 of
              (Inr True, w3) \<Rightarrow> (Inr tp, w3)
            | (Inr False, w3) \<Rightarrow> (Inr p, w3)
            | (Inl e, w3) \<Rightarrow> (Inr p, w3)))"
    unfolding get_or_create_thumbnail_body_def hw tp_def w2_def w1_def
    by (simp add: os_path_exists_def record_event_def Let_def)
  have "(files w tp \<noteq> None \<and>
          get_or_create_thumbnail_body E p w = (Inr tp, w1\<lparr>log := log w @ evh @ [EvExists tp]\<rparr>)) \<or>
         (files w tp = None \<and>
          (\<exists>b data. open_read p w = Inr data \<and>
             get_or_create_thumbnail_body E p w =
               (Inr tp, w1\<lparr>files := (files w)(tp \<mapsto> File b),
                           log := log w @ evh @ [EvExists tp, EvTranscode p tp (Inr True)]\<rparr>))) \<or>
         (files w tp = None \<and>
          (\<exists>res fs. (res = Inr False \<or> (\<exists>e. res = Inl e \<and> \<not> is_Exception e)) \<and>
             (fs = files w \<or> (\<exists>b data. open_read p w = Inr data \<and> fs = (files w)(tp \<mapsto> File b))) \<and>
             get_or_create_thumbnail_body E p w =
               (Inr p, w1\<lparr>files := fs,
                          log := log w @ evh @ [EvExists tp, EvTranscode p tp res]\<rparr>)))"
  proof (cases "files w tp \<noteq> None")
    case True
    then show ?thesis using body by (simp add: w2_def)
  next
    case False
    consider (ok) b data where "open_read p w2 = Inr data"
        "optimize_image_for_web E p tp THUMBNAIL_SIZE THUMBNAIL_QUALITY ''WebP'' w2 =
          (Inr True, w2\<lparr>files := (files w2)(tp \<mapsto> File b), log := log w2 @ [EvTranscode p tp (Inr True)]\<rparr>)"
      | (failed) res fs where "res = Inr False \<or> (\<exists>e. res = Inl e \<and> \<not> is_Exception e)"
        "fs = files w2 \<or> (\<exists>b data. open_read p w2 = Inr data \<and> fs = (files w2)(tp \<mapsto> File b))"
        "optimize_image_for_web E p tp THUMBNAIL_SIZE THUMBNAIL_QUALITY ''WebP'' w2 =
          (res, w2\<lparr>files := fs, log := log w2 @ [EvTranscode p tp res]\<rparr>)"
      using optimize_shape [of p w2 E tp THUMBNAIL_SIZE THUMBNAIL_QUALITY "''WebP''"] by blast
    then show ?thesis
    proof cases
      case ok
      have "open_read p w = Inr data" using ok(1) f2 by (simp add: open_read_def)
      moreover have "get_or_create_thumbnail_body E p w =
               (Inr tp, w1\<lparr>files := (files w)(tp \<mapsto> File b),
                           log := log w @ evh @ [EvExists tp, EvTranscode p tp (Inr True)]\<rparr>)"
        using False body ok(2) by (simp add: w2_def w1_def)
      ultimately show ?thesis using False by blast
    next
      case failed
      have "get_or_create_thumbnail_body E p w =
               (Inr p, w1\<lparr>files := fs, log := log w @ evh @ [EvExists tp, EvTranscode p tp res]\<rparr>)"
        using False body failed(1,3) by (auto simp: w2_def w1_def)
      moreover have "fs = files w \<or> (\<exists>b data. open_read p w = Inr data \<and> fs = (files w)(tp \<mapsto> File b))"
        using failed(2) f2 by (simp add: open_read_def)
      ultimately show ?thesis using False failed(1) by blast
    qed
  qed
  then show ?thesis
    using h unfolding tp_def w1_def Let_def by blast
qed

lemma preview_body_shape:
  "\<exists>k evh.
     (hash_memo w p = Some k \<and> evh = [] \<or>
      hash_memo w p = None \<and> fst (get_image_hash_body E p w) = Inr k \<and> evh = [EvRead p]) \<and>
     (let tp = os_path_join PREVIEWS_DIR (k @ ''_preview.webp'');
          w1 = w\<lparr>hash_memo := (hash_memo w)(p \<mapsto> k)\<rparr>
      in (files w tp \<noteq> None \<and>
          get_or_create_preview_body E p w = (Inr tp, w1\<lparr>log := log w @ evh @ [EvExists tp]\<rparr>)) \<or>
         (files w tp = None \<and>
          (\<exists>b data. open_read p w = Inr data \<and>
             get_or_create_preview_body E p w =
               (Inr tp, w1\<lparr>files := (files w)(tp \<mapsto> File b),
                           log := log w @ evh @ [EvExists tp, EvTranscode p tp (Inr True)]\<rparr>))) \<or>
         (files w tp = None \<and>
          (\<exists>res fs. (res = Inr False \<or> (\<exists>e. res = Inl e \<and> \<not> is_Exception e)) \<and>
             (fs = files w \<or> (\<exists>b data. open_read p w = Inr data \<and> fs = (files w)(tp \<mapsto> File b))) \<and>
             get_or_create_preview_body E p w =
               (Inr p, w1\<lparr>files := fs,
                          log := log w @ evh @ [EvExists tp, EvTranscode p tp res]\<rparr>))))"
proof -
  obtain k evh where h: "hash_memo w p = Some k \<and> evh = [] \<or>
      hash_memo w p = None \<and> fst (get_image_hash_body E p w) = Inr k \<and> evh = [EvRead p]"
    and hw: "get_image_hash E p w = (Inr k, w\<lparr>hash_memo := (hash_memo w)(p \<mapsto> k), log := log w @ evh\<rparr>)"
  proof (cases rule: get_image_hash_cases [of w p E])
    case (hit k)
    then have "(hash_memo w)(p \<mapsto> k) = hash_memo w" by (simp add: map_upd_triv)
    then have "get_image_hash E p w = (Inr k, w\<lparr>hash_memo := (hash_memo w)(p \<mapsto> k), log := log w @ []\<rparr>)"
      using hit by simp
    then show ?thesis using hit that by blast
  next
    case (miss k)
    then show ?thesis using that by blast
  qed
  define tp where "tp = os_path_join PREVIEWS_DIR (k @ ''_preview.webp'')"
  define w1 where "w1 = w\<lparr>hash_memo := (hash_memo w)(p \<mapsto> k)\<rparr>"
  define w2 where "w2 = w1\<lparr>log := log w @ evh @ [EvExists tp]\<rparr>"
  have f2: "files w2 = files w" and l2: "log w2 = log w @ evh @ [EvExists tp]"
    by (simp_all add: w2_def w1_def)
  have body: "get_or_create_preview_body E p w =
     (if files w tp \<noteq> None then (Inr tp, w2)
      else (case optimize_image_for_web E p tp PREVIEW_SIZE PREVIEW_QUALITY ''WebP'' w2 of
              (Inr True, w3) \<Rightarrow> (Inr tp, w3)
            | (Inr False, w3) \<Rightarrow> (Inr p, w3)
            | (Inl e, w3) \<Rightarrow> (Inr p, w3)))"
    unfolding get_or_create_preview_body_def hw tp_def w2_def w1_def
    by (simp add: os_path_exists_def record_event_def Let_def)
  have "(files w tp \<noteq> None \<and>
          get_or_create_preview_body E p w = (Inr tp, w1\<lparr>log := log w @ evh @ [EvExists tp]\<rparr>)) \<or>
         (files w tp = None \<and>
          (\<exists>b data. open_read p w = Inr data \<and>
             get_or_create_preview_body E p w =
               (Inr tp, w1\<lparr>files := (files w)(tp \<mapsto> File b),
                           log := log w @ evh @ [EvExists tp, EvTranscode p tp (Inr True)]\<rparr>))) \<or>
         (files w tp = None \<and>
          (\<exists>res fs. (res = Inr False \<or> (\<exists>e. res = Inl e \<and> \<not> is_Exception e)) \<and>
             (fs = files w \<or> (\<exists>b data. open_read p w = Inr data \<and> fs = (files w)(tp \<mapsto> File b))) \<and>
             get_or_create_preview_body E p w =
               (Inr p, w1\<lparr>files := fs,
                          log := log w @ evh @ [EvExists tp, EvTranscode p tp res]\<rparr>)))"
  proof (cases "files w tp \<noteq> None")
    case True
    then show ?thesis using body by (simp add: w2_def)
  next
    case False
    consider (ok) b data where "open_read p w2 = Inr data"
        "optimize_image_for_web E p tp PREVIEW_SIZE PREVIEW_QUALITY ''WebP'' w2 =
          (Inr True, w2\<lparr>files := (files w2)(tp \<mapsto> File b), log := log w2 @ [EvTranscode p tp (Inr True)]\<rparr>)"
      | (failed) res fs where "res = Inr False \<or> (\<exists>e. res = Inl e \<and> \<not> is_Exception e)"
        "fs = files w2 \<or> (\<exists>b data. open_read p w2 = Inr data \<and> fs = (files w2)(tp \<mapsto> File b))"
        "optimize_image_for_web E p tp PREVIEW_SIZE PREVIEW_QUALITY ''WebP'' w2 =
          (res, w2\<lparr>files := fs, log := log w2 @ [EvTranscode p tp res]\<rparr>)"
      using optimize_shape [of p w2 E tp PREVIEW_SIZE PREVIEW_QUALITY "''WebP''"] by blast
    then show ?thesis
    proof cases
      case ok
      have "open_read p w = Inr data" using ok(1) f2 by (simp add: open_read_def)
      moreover have "get_or_create_preview_body E p w =
               (Inr tp, w1\<lparr>files := (files w)(tp \<mapsto> File b),
                           log := log w @ evh @ [EvExists tp, EvTranscode p tp (Inr True)]\<rparr>)"
        using False body ok(2) by (simp add: w2_def w1_def)
      ultimately show ?thesis using False by blast
    next
      case failed
      have "get_or_create_preview_body E p w =
               (Inr p, w1\<lparr>files := fs, log := log w @ evh @ [EvExists tp, EvTranscode p tp res]\<rparr>)"
        using False body failed(1,3) by (auto simp: w2_def w1_def)
      moreover have "fs = files w \<or> (\<exists>b data. open_read p w = Inr data \<and> fs = (files w)(tp \<mapsto> File b))"
        using failed(2) f2 by (simp add: open_read_def)
      ultimately show ?thesis using False failed(1) by blast
    qed
  qed
  then show ?thesis
    using h unfolding tp_def w1_def Let_def by blast
qed

lemma new_events_append: "log w' = log w @ evs \<Longrightarrow> new_events w w' = evs"
  by (simp add: new_events_def)

lemma thumbnail_call_shape:
  "(\<exists>v. thumbnail_memo w p = Some v \<and> get_or_create_thumbnail E p w = (Inr v, w)) \<or>
   (\<exists>r w'. thumbnail_memo w p = None \<and> get_or_create_thumbnail_body E p w = (Inr r, w') \<and>
      get_or_create_thumbnail E p w = (Inr r, w'\<lparr>thumbnail_memo := (thumbnail_memo w')(p \<mapsto> r)\<rparr>))"
proof (cases "thumbnail_memo w p")
  case None
  obtain r w' where b: "get_or_create_thumbnail_body E p w = (Inr r, w')"
    using thumbnail_body_shape [of w p E] unfolding Let_def by blast
  then have "get_or_create_thumbnail E p w = (Inr r, w'\<lparr>thumbnail_memo := (thumbnail_memo w')(p \<mapsto> r)\<rparr>)"
    using None by (simp add: get_or_create_thumbnail_def st_cache_data_def)
  then show ?thesis using None b by blast
next
  case (Some v)
  then show ?thesis by (simp add: get_or_create_thumbnail_def st_cache_data_def)
qed

lemma thumbnail_body_failure:
  assumes "get_or_create_thumbnail_body E p w = (r, w')"
    and "EvTranscode p dst res \<in> set (new_events w w')" and "res \<noteq> Inr True"
  shows "r = Inr p"
proof -
  obtain k evh where
    sh: "let tp = os_path_join THUMBNAILS_DIR (k @ ''_thumb.webp'');
          w1 = w\<lparr>hash_memo := (hash_memo w)(p \<mapsto> k)\<rparr>
      in (files w tp \<noteq> None \<and>
          get_or_create_thumbnail_body E p w = (Inr tp, w1\<lparr>log := log w @ evh @ [EvExists tp]\<rparr>)) \<or>
         (files w tp = None \<and>
          (\<exists>b data. open_read p w = Inr data \<and>
             get_or_create_thumbnail_body E p w =
               (Inr tp, w1\<lparr>files := (files w)(tp \<mapsto> File b),
                           log := log w @ evh @ [EvExists tp, EvTranscode p tp (Inr True)]\<rparr>))) \<or>
         (files w tp = None \<and>
          (\<exists>res fs. (res = Inr False \<or> (\<exists>e. res = Inl e \<and> \<not> is_Exception e)) \<and>
             (fs = files w \<or> (\<exists>b data. open_read p w = Inr data \<and> fs = (files w)(tp \<mapsto> File b))) \<and>
             get_or_create_thumbnail_body E p w =
               (Inr p, w1\<lparr>files := fs,
                          log := log w @ evh @ [EvExists tp, EvTranscode p tp res]\<rparr>)))"
    and ev: "evh = [] \<or> evh = [EvRead p]"
    using thumbnail_body_shape [of w p E] by blast
  define tp where "tp = os_path_join THUMBNAILS_DIR (k @ ''_thumb.webp'')"
  define w1 where "w1 = w\<lparr>hash_memo := (hash_memo w)(p \<mapsto> k)\<rparr>"
  consider (hit) "get_or_create_thumbnail_body E p w = (Inr tp, w1\<lparr>log := log w @ evh @ [EvExists tp]\<rparr>)"
    | (made) b where "get_or_create_thumbnail_body E p w =
               (Inr tp, w1\<lparr>files := (files w)(tp \<mapsto> File b),
                           log := log w @ evh @ [EvExists tp, EvTranscode p tp (Inr True)]\<rparr>)"
    | (failed) res' fs where "get_or_create_thumbnail_body E p w =
               (Inr p, w1\<lparr>files := fs, log := log w @ evh @ [EvExists tp, EvTranscode p tp res']\<rparr>)"
    using sh unfolding Let_def tp_def w1_def by blast
  then show ?thesis
  proof cases
    case hit
    then have "new_events w w' = evh @ [EvExists tp]"
      using assms(1) by (auto simp: new_events_def)
    then show ?thesis using assms(2) ev by auto
  next
    case made
    then have "new_events w w' = evh @ [EvExists tp, EvTranscode p tp (Inr True)]"
      using assms(1) by (auto simp: new_events_def)
    then show ?thesis using assms(2,3) ev by auto
  next
    case failed
    then show ?thesis using assms(1) by simp
  qed
qed

lemma preview_call_shape:
  "(\<exists>v. preview_memo w p = Some v \<and> get_or_create_preview E p w = (Inr v, w)) \<or>
   (\<exists>r w'. preview_memo w p = None \<and> get_or_create_preview_body E p w = (Inr r, w') \<and>
      get_or_create_preview E p w = (Inr r, w'\<lparr>preview_memo := (preview_memo w')(p \<mapsto> r)\<rparr>))"
proof (cases "preview_memo w p")
  case None
  obtain r w' where b: "get_or_create_preview_body E p w = (Inr r, w')"
    using preview_body_shape [of w p E] unfolding Let_def by blast
  then have "get_or_create_preview E p w = (Inr r, w'\<lparr>preview_memo := (preview_memo w')(p \<mapsto> r)\<rparr>)"
    using None by (simp add: get_or_create_preview_def st_cache_data_def)
  then show ?thesis using None b by blast
next
  case (Some v)
  then show ?thesis by (simp add: get_or_create_preview_def st_cache_data_def)
qed

lemma preview_body_failure:
  assumes "get_or_create_preview_body E p w = (r, w')"
    and "EvTranscode p dst res \<in> set (new_events w w')" and "res \<noteq> Inr True"
  shows "r = Inr p"
proof -
  obtain k evh where
    sh: "let tp = os_path_join PREVIEWS_DIR (k @ ''_preview.webp'');
          w1 = w\<lparr>hash_memo := (hash_memo w)(p \<mapsto> k)\<rparr>
      in (files w tp \<noteq> None \<and>
          get_or_create_preview_body E p w = (Inr tp, w1\<lparr>log := log w @ evh @ [EvExists tp]\<rparr>)) \<or>
         (files w tp = None \<and>
          (\<exists>b data. open_read p w = Inr data \<and>
             get_or_create_preview_body E p w =
               (Inr tp, w1\<lparr>files := (files w)(tp \<mapsto> File b),
                           log := log w @ evh @ [EvExists tp, EvTranscode p tp (Inr True)]\<rparr>))) \<or>
         (files w tp = None \<and>
          (\<exists>res fs. (res = Inr False \<or> (\<exists>e. res = Inl e \<and> \<not> is_Exception e)) \<and>
             (fs = files w \<or> (\<exists>b data. open_read p w = Inr data \<and> fs = (files w)(tp \<mapsto> File b))) \<and>
             get_or_create_preview_body E p w =
               (Inr p, w1\<lparr>files := fs,
                          log := log w @ evh @ [EvExists tp, EvTranscode p tp res]\<rparr>)))"
    and ev: "evh = [] \<or> evh = [EvRead p]"
    using preview_body_shape [of w p E] by blast
  define tp where "tp = os_path_join PREVIEWS_DIR (k @ ''_preview.webp'')"
  define w1 where "w1 = w\<lparr>hash_memo := (hash_memo w)(p \<mapsto> k)\<rparr>"
  consider (hit) "get_or_create_preview_body E p w = (Inr tp, w1\<lparr>log := log w @ evh @ [EvExists tp]\<rparr>)"
    | (made) b where "get_or_create_preview_body E p w =
               (Inr tp, w1\<lparr>files := (files w)(tp \<mapsto> File b),
                           log := log w @ evh @ [EvExists tp, EvTranscode p tp (Inr True)]\<rparr>)"
    | (failed) res' fs where "get_or_create_preview_body E p w =
               (Inr p, w1\<lparr>files := fs, log := log w @ evh @ [EvExists tp, EvTranscode p tp res']\<rparr>)"
    using sh unfolding Let_def tp_def w1_def by blast
  then show ?thesis
  proof cases
    case hit
    then have "new_events w w' = evh @ [EvExists tp]"
      using assms(1) by (auto simp: new_events_def)
    then show ?thesis using assms(2) ev by auto
  next
    case made
    then have "new_events w w' = evh @ [EvExists tp, EvTranscode p tp (Inr True)]"
      using assms(1) by (auto simp: new_events_def)
    then show ?thesis using assms(2,3) ev by auto
  next
    case failed
    then show ?thesis using assms(1) by simp
  qed
qed


lemma thumbnail_call_failure:
  "\<exists>r w'. get_or_create_thumbnail E p w = (Inr r, w') \<and>
      (\<forall>dst res. EvTranscode p dst res \<in> set (new_events w w') \<longrightarrow> res \<noteq> Inr True \<longrightarrow> r = p)"
proof -
  consider (hit) v where "thumbnail_memo w p = Some v" "get_or_create_thumbnail E p w = (Inr v, w)"
    | (miss) r w' where "get_or_create_thumbnail_body E p w = (Inr r, w')"
        "get_or_create_thumbnail E p w = (Inr r, w'\<lparr>thumbnail_memo := (thumbnail_memo w')(p \<mapsto> r)\<rparr>)"
    using thumbnail_call_shape [of w p E] by blast
  then show ?thesis
  proof cases
    case hit
    then show ?thesis by (simp add: new_events_def)
  next
    case miss
    have "new_events w (w'\<lparr>thumbnail_memo := (thumbnail_memo w')(p \<mapsto> r)\<rparr>) = new_events w w'"
      by (simp add: new_events_def)
    then have "\<forall>dst res. EvTranscode p dst res \<in> set (new_events w (w'\<lparr>thumbnail_memo := (thumbnail_memo w')(p \<mapsto> r)\<rparr>)) \<longrightarrow>
        res \<noteq> Inr True \<longrightarrow> r = p"
      using thumbnail_body_failure [OF miss(1)] by auto
    then show ?thesis using miss(2) by blast
  qed
qed

lemma preview_call_failure:
  "\<exists>r w'. get_or_create_preview E p w = (Inr r, w') \<and>
      (\<forall>dst res. EvTranscode p dst res \<in> set (new_events w w') \<longrightarrow> res \<noteq> Inr True \<longrightarrow> r = p)"
proof -
  consider (hit) v where "preview_memo w p = Some v" "get_or_create_preview E p w = (Inr v, w)"
    | (miss) r w' where "get_or_create_preview_body E p w = (Inr r, w')"
        "get_or_create_preview E p w = (Inr r, w'\<lparr>preview_memo := (preview_memo w')(p \<mapsto> r)\<rparr>)"
    using preview_call_shape [of w p E] by blast
  then show ?thesis
  proof cases
    case hit
    then show ?thesis by (simp add: new_events_def)
  next
    case miss
    have "new_events w (w'\<lparr>preview_memo := (preview_memo w')(p \<mapsto> r)\<rparr>) = new_events w w'"
      by (simp add: new_events_def)
    then have "\<forall>dst res. EvTranscode p dst res \<in> set (new_events w (w'\<lparr>preview_memo := (preview_memo w')(p \<mapsto> r)\<rparr>)) \<longrightarrow>
        res \<noteq> Inr True \<longrightarrow> r = p"
      using preview_body_failure [OF miss(1)] by auto
    then show ?thesis using miss(2) by blast
  qed
qed

lemma thumbnail_body_cases [case_names hit made failed]:
  obtains
    (hit) k evh where
      "hash_memo w p = Some k \<and> evh = [] \<or>
       hash_memo w p = None \<and> fst (get_image_hash_body E p w) = Inr k \<and> evh = [EvRead p]"
      "files w (os_path_join THUMBNAILS_DIR (k @ ''_thumb.webp'')) \<noteq> None"
      "get_or_create_thumbnail_body E p w =
         (Inr (os_path_join THUMBNAILS_DIR (k @ ''_thumb.webp'')),
          w\<lparr>hash_memo := (hash_memo w)(p \<mapsto> k),
            log := log w @ evh @ [EvExists (os_path_join THUMBNAILS_DIR (k @ ''_thumb.webp''))]\<rparr>)"
  | (made) k evh b data where
      "hash_memo w p = Some k \<and> evh = [] \<or>
       hash_memo w p = None \<and> fst (get_image_hash_body E p w) = Inr k \<and> evh = [EvRead p]"
      "files w (os_path_join THUMBNAILS_DIR (k @ ''_thumb.webp'')) = None"
      "open_read p w = Inr data"
      "get_or_create_thumbnail_body E p w =
         (Inr (os_path_join THUMBNAILS_DIR (k @ ''_thumb.webp'')),
          w\<lparr>files := (files w)(os_path_join THUMBNAILS_DIR (k @ ''_thumb.webp'') \<mapsto> File b),
            hash_memo := (hash_memo w)(p \<mapsto> k),
            log := log w @ evh @ [EvExists (os_path_join THUMBNAILS_DIR (k @ ''_thumb.webp'')),
               EvTranscode p (os_path_join THUMBNAILS_DIR (k @ ''_thumb.webp'')) (Inr True)]\<rparr>)"
  | (failed) k evh res fs where
      "hash_memo w p = Some k \<and> evh = [] \<or>
       hash_memo w p = None \<and> fst (get_image_hash_body E p w) = Inr k \<and> evh = [EvRead p]"
      "files w (os_path_join THUMBNAILS_DIR (k @ ''_thumb.webp'')) = None"
      "res = Inr False \<or> (\<exists>e. res = Inl e \<and> \<not> is_Exception e)"
      "fs = files w \<or> (\<exists>b data. open_read p w = Inr data \<and> fs = (files w)(os_path_join THUMBNAILS_DIR (k @ ''_thumb.webp'') \<mapsto> File b))"
      "get_or_create_thumbnail_body E p w =
         (Inr p,
          w\<lparr>files := fs, hash_memo := (hash_memo w)(p \<mapsto> k),
            log := log w @ evh @ [EvExists (os_path_join THUMBNAILS_DIR (k @ ''_thumb.webp'')),
               EvTranscode p (os_path_join THUMBNAILS_DIR (k @ ''_thumb.webp'')) res]\<rparr>)"
proof -
  let ?tp = "\<lambda>k. os_path_join THUMBNAILS_DIR (k @ ''_thumb.webp'')"
  obtain k evh where h: "hash_memo w p = Some k \<and> evh = [] \<or>
       hash_memo w p = None \<and> fst (get_image_hash_body E p w) = Inr k \<and> evh = [EvRead p]"
    and sh: "(files w (?tp k) \<noteq> None \<and>
          get_or_create_thumbnail_body E p w =
            (Inr (?tp k), w\<lparr>hash_memo := (hash_memo w)(p \<mapsto> k), log := log w @ evh @ [EvExists (?tp k)]\<rparr>)) \<or>
         (files w (?tp k) = None \<and>
          (\<exists>b data. open_read p w = Inr data \<and>
             get_or_create_thumbnail_body E p w =
               (Inr (?tp k), w\<lparr>hash_memo := (hash_memo w)(p \<mapsto> k), files := (files w)(?tp k \<mapsto> File b),
                           log := log w @ evh @ [EvExists (?tp k), EvTranscode p (?tp k) (Inr True)]\<rparr>))) \<or>
         (files w (?tp k) = None \<and>
          (\<exists>res fs. (res = Inr False \<or> (\<exists>e. res = Inl e \<and> \<not> is_Exception e)) \<and>
             (fs = files w \<or> (\<exists>b data. open_read p w = Inr data \<and> fs = (files w)(?tp k \<mapsto> File b))) \<and>
             get_or_create_thumbnail_body E p w =
               (Inr p, w\<lparr>hash_memo := (hash_memo w)(p \<mapsto> k), files := fs,
                          log := log w @ evh @ [EvExists (?tp k), EvTranscode p (?tp k) res]\<rparr>)))"
    using thumbnail_body_shape [of w p E] unfolding Let_def by blast
  from sh consider
      (a) "files w (?tp k) \<noteq> None"
        "get_or_create_thumbnail_body E p w =
            (Inr (?tp k), w\<lparr>hash_memo := (hash_memo w)(p \<mapsto> k), log := log w @ evh @ [EvExists (?tp k)]\<rparr>)"
    | (b) b data where "files w (?tp k) = None" "open_read p w = Inr data"
        "get_or_create_thumbnail_body E p w =
               (Inr (?tp k), w\<lparr>hash_memo := (hash_memo w)(p \<mapsto> k), files := (files w)(?tp k \<mapsto> File b),
                           log := log w @ evh @ [EvExists (?tp k), EvTranscode p (?tp k) (Inr True)]\<rparr>)"
    | (c) res fs where "files w (?tp k) = None"
        "res = Inr False \<or> (\<exists>e. res = Inl e \<and> \<not> is_Exception e)"
        "fs = files w \<or> (\<exists>b data. open_read p w = Inr data \<and> fs = (files w)(?tp k \<mapsto> File b))"
        "get_or_create_thumbnail_body E p w =
               (Inr p, w\<lparr>hash_memo := (hash_memo w)(p \<mapsto> k), files := fs,
                          log := log w @ evh @ [EvExists (?tp k), EvTranscode p (?tp k) res]\<rparr>)"
    by blast
  then show thesis
  proof cases
    case a
    then show thesis using h by (intro hit [of k evh]) simp_all
  next
    case b
    then show thesis using h by (intro made [of k evh data b]) simp_all
  next
    case c
    then show thesis using h by (intro failed [of k evh res fs]) simp_all
  qed
qed


lemma hash_body_readable:
  "open_read p w = Inr data \<Longrightarrow> fst (get_image_hash_body E p w) = Inr (hexdigest (hashlib_md5 E data))"
  by (simp add: get_image_hash_body_def)

lemma open_read_Inr: "open_read p w = Inr data \<longleftrightarrow> files w p = Some (File data)"
  by (auto simp: open_read_def split: option.splits node.splits)








lemma hash_body_open_read:
  "open_read p v = open_read p w \<Longrightarrow> fst (get_image_hash_body E p v) = fst (get_image_hash_body E p w)"
  by (simp add: get_image_hash_body_def)

section \<open>The pool and the loop over the futures\<close>

text \<open>
  What the proofs about the batch share: a task that runs its three steps with no other
  task in between is the call \<open>get_or_create_thumbnail\<close>; no task ends in an exception;
  the loop over the futures returns one pair for each future.
\<close>

lemma get_image_hash_Inr: "\<exists>k w1. get_image_hash E p w = (Inr k, w1)"
  by (cases rule: get_image_hash_cases [of w p E]) auto

lemma task_step_Returned [simp]: "task_step E (Returned r) w = (Returned r, w)"
  by simp

text \<open>Three steps of a task on its own are the call.\<close>

lemma task_three_steps:
  "(case task_step E (Submitted p) w of
      (t1, w1) \<Rightarrow> (case task_step E t1 w1 of
        (t2, w2) \<Rightarrow> task_step E t2 w2)) =
   (Returned (fst (get_or_create_thumbnail E p w)), snd (get_or_create_thumbnail E p w))"
proof (cases "thumbnail_memo w p")
  case (Some v)
  then show ?thesis
    by (simp add: get_or_create_thumbnail_def st_cache_data_def)
next
  case None
  obtain k w1 where h: "get_image_hash E p w = (Inr k, w1)"
    using get_image_hash_Inr by blast
  define tp where "tp = os_path_join THUMBNAILS_DIR (k @ ''_thumb.webp'')"
  obtain found w2 where ex: "os_path_exists tp w1 = (found, w2)"
    by (cases "os_path_exists tp w1")
  show ?thesis
  proof (cases found)
    case True
    then show ?thesis
      using None h ex
      by (simp add: get_or_create_thumbnail_def st_cache_data_def get_or_create_thumbnail_body_def
          tp_def Let_def)
  next
    case False
    obtain r w3 where opt: "optimize_image_for_web E p tp THUMBNAIL_SIZE THUMBNAIL_QUALITY ''WebP'' w2 = (r, w3)"
      by (cases "optimize_image_for_web E p tp THUMBNAIL_SIZE THUMBNAIL_QUALITY ''WebP'' w2")
    show ?thesis
      using None h ex False opt
      by (cases r; cases "projr r")
         (simp_all add: get_or_create_thumbnail_def st_cache_data_def get_or_create_thumbnail_body_def
          tp_def Let_def)
  qed
qed


lemma task_step_not_raised: "\<not> raised t \<Longrightarrow> \<not> raised (fst (task_step E t w))"
proof (cases t)
  case (Submitted p)
  obtain k w1 where "get_image_hash E p w = (Inr k, w1)" using get_image_hash_Inr by blast
  then show ?thesis using Submitted by (auto split: option.splits)
next
  case (Hashed p k)
  then show ?thesis by (auto simp: Let_def os_path_exists_def)
next
  case (Missing p tp)
  obtain x w3 where "optimize_image_for_web E p tp THUMBNAIL_SIZE THUMBNAIL_QUALITY ''WebP'' w = (x, w3)"
    by (cases "optimize_image_for_web E p tp THUMBNAIL_SIZE THUMBNAIL_QUALITY ''WebP'' w")
  then show ?thesis using Missing by (cases x; cases "projr x") auto
next
  case (Returned r')
  assume "\<not> raised t"
  then show ?thesis using Returned by simp
qed

lemma run_pool_invariant:
  assumes "list_all (\<lambda>t. \<not> raised t) tasks"
  shows "list_all (\<lambda>t. \<not> raised t) (fst (run_pool E order tasks w)) \<and>
         length (fst (run_pool E order tasks w)) = length tasks"
  using assms
proof (induction order arbitrary: tasks w)
  case Nil
  then show ?case by simp
next
  case (Cons i order)
  show ?case
  proof (cases "i < length tasks \<and> may_run tasks i")
    case True
    obtain t w' where st: "task_step E (tasks ! i) w = (t, w')"
      by (cases "task_step E (tasks ! i) w")
    have "\<not> raised (tasks ! i)"
      using Cons.prems True by (simp add: list_all_length)
    then have "\<not> raised t"
      using task_step_not_raised [of "tasks ! i" E w] st by simp
    then have "list_all (\<lambda>t. \<not> raised t) (tasks[i := t])"
      using Cons.prems by (auto simp: list_all_iff dest: set_update_subset_insert [THEN subsetD])
    then have "list_all (\<lambda>t. \<not> raised t) (fst (run_pool E order (tasks[i := t]) w')) \<and>
         length (fst (run_pool E order (tasks[i := t]) w')) = length (tasks[i := t])"
      by (rule Cons.IH)
    then show ?thesis using True st by simp
  next
    case False
    then show ?thesis using Cons.IH [OF Cons.prems] by auto
  qed
qed

lemma future_result_ok:
  assumes "list_all (\<lambda>t. \<not> raised t) tasks" and "future_result tasks late i = Inl e"
  shows "is_Exception e"
proof (cases "late i \<or> length tasks \<le> i")
  case True
  then show ?thesis using assms(2) by (auto simp: future_result_def)
next
  case False
  then have "\<not> raised (tasks ! i)" using assms(1) by (simp add: list_all_length)
  then show ?thesis
    using assms(2) False by (cases "tasks ! i") (auto simp: future_result_def)
qed

lemma await_results_eq:
  assumes "\<forall>(i, p) \<in> set futures. \<forall>e. result i = Inl e \<longrightarrow> is_Exception e"
  shows "await_results result futures results =
           Inr (results @ map (\<lambda>(i, p). (p, case result i of Inr t \<Rightarrow> t | Inl e \<Rightarrow> p)) futures)"
  using assms
proof (induction futures arbitrary: results)
  case Nil
  then show ?case by simp
next
  case (Cons f futures)
  obtain i p where f: "f = (i, p)" by (cases f)
  have rest: "\<forall>(i, p) \<in> set futures. \<forall>e. result i = Inl e \<longrightarrow> is_Exception e"
    using Cons.prems by simp
  show ?case
  proof (cases "result i")
    case (Inl e)
    then have "is_Exception e" using Cons.prems f by auto
    then show ?thesis using Inl f Cons.IH [OF rest] by simp
  next
    case (Inr t)
    then show ?thesis using f Cons.IH [OF rest] by simp
  qed
qed

lemma batch_eq:
  "\<exists>tasks w'. run_pool E order (map Submitted image_paths) w = (tasks, w') \<and>
     length tasks = length image_paths \<and>
     batch_process_thumbnails_silent E order late image_paths w =
       (Inr (map (\<lambda>(i, p). (p, case future_result tasks late i of Inr t \<Rightarrow> t | Inl e \<Rightarrow> p))
               (zip [0..<length image_paths] image_paths)), w')"
proof -
  obtain tasks w' where rp: "run_pool E order (map Submitted image_paths) w = (tasks, w')"
    by (cases "run_pool E order (map Submitted image_paths) w")
  have "list_all (\<lambda>t. \<not> raised t) (map Submitted image_paths)"
    by (simp add: list_all_iff)
  then have inv: "list_all (\<lambda>t. \<not> raised t) tasks" "length tasks = length image_paths"
    using run_pool_invariant [of "map Submitted image_paths" E order w] rp by simp_all
  have "\<forall>(i, p) \<in> set (zip [0..<length image_paths] image_paths).
          \<forall>e. future_result tasks late i = Inl e \<longrightarrow> is_Exception e"
    using future_result_ok [OF inv(1)] by blast
  then have "await_results (future_result tasks late) (zip [0..<length image_paths] image_paths) [] =
      Inr ([] @ map (\<lambda>(i, p). (p, case future_result tasks late i of Inr t \<Rightarrow> t | Inl e \<Rightarrow> p))
               (zip [0..<length image_paths] image_paths))"
    by (rule await_results_eq)
  then show ?thesis using rp inv(2) by (simp add: batch_process_thumbnails_silent_def)
qed


lemma thumbnail_call_returns: "\<exists>t. fst (get_or_create_thumbnail E p w) = Inr t"
  using thumbnail_call_shape [of w p E] by auto

lemma may_run_update: "may_run (tasks[i := t]) i = may_run tasks i"
  by (simp add: may_run_def)

lemma run_pool_three:
  assumes i: "i < length tasks" and sub: "tasks ! i = Submitted p" and run: "may_run tasks i"
  shows "run_pool E (i # i # i # order) tasks w =
         run_pool E order (tasks[i := Returned (fst (get_or_create_thumbnail E p w))])
           (snd (get_or_create_thumbnail E p w))"
proof -
  obtain t1 w1 where s1: "task_step E (Submitted p) w = (t1, w1)"
    by (cases "task_step E (Submitted p) w")
  obtain t2 w2 where s2: "task_step E t1 w1 = (t2, w2)"
    by (cases "task_step E t1 w1")
  obtain t3 w3 where s3: "task_step E t2 w2 = (t3, w3)"
    by (cases "task_step E t2 w2")
  have three: "t3 = Returned (fst (get_or_create_thumbnail E p w))"
      "w3 = snd (get_or_create_thumbnail E p w)"
    using task_three_steps [of E p w] s1 s2 s3 by simp_all
  have "run_pool E (i # i # i # order) tasks w = run_pool E (i # i # order) (tasks[i := t1]) w1"
    using i sub run s1 by simp
  also have "\<dots> = run_pool E (i # order) (tasks[i := t2]) w2"
    using i run s2 by (simp add: may_run_update)
  also have "\<dots> = run_pool E order (tasks[i := t3]) w3"
    using i run s3 by (simp add: may_run_update)
  finally show ?thesis using three by simp
qed

lemma run_pool_in_turn:
  assumes "length ready = n" and "list_all is_Returned ready"
  shows "run_pool E (concat (map (\<lambda>i. [i, i, i]) [n..<n + length ps])) (ready @ map Submitted ps) w =
         (ready @ map (\<lambda>(p, t). Returned (Inr t)) (fst (resolve_each E ps w)),
          snd (resolve_each E ps w))"
  using assms
proof (induction ps arbitrary: ready n w)
  case Nil
  then show ?case by simp
next
  case (Cons p ps)
  let ?tasks = "ready @ map Submitted (p # ps)"
  obtain t where t: "fst (get_or_create_thumbnail E p w) = Inr t"
    using thumbnail_call_returns by blast
  define w1 where "w1 = snd (get_or_create_thumbnail E p w)"
  have call: "get_or_create_thumbnail E p w = (Inr t, w1)"
    using t by (simp add: w1_def prod_eq_iff)
  have "n < n + length (p # ps)" by simp
  then have "[n..<n + length (p # ps)] = n # [Suc n..<n + length (p # ps)]"
    by (rule upt_conv_Cons)
  then have upt: "[n..<n + length (p # ps)] = n # [Suc n..<Suc n + length ps]"
    by simp
  have n: "n < length ?tasks" "?tasks ! n = Submitted p"
    using Cons.prems(1) by (simp_all add: nth_append)
  have "filter (\<lambda>t. \<not> is_Returned t) ready = []"
    using Cons.prems(2) by (simp add: list_all_iff filter_empty_conv)
  then have run: "may_run ?tasks n"
    using Cons.prems(1) by (simp add: may_run_def max_workers_def)
  have upd: "?tasks[n := Returned (Inr t)] = (ready @ [Returned (Inr t)]) @ map Submitted ps"
    using Cons.prems(1) by (simp add: list_update_append)
  have "run_pool E (concat (map (\<lambda>i. [i, i, i]) [n..<n + length (p # ps)])) ?tasks w =
        run_pool E (n # n # n # concat (map (\<lambda>i. [i, i, i]) [Suc n..<Suc n + length ps])) ?tasks w"
    unfolding upt by simp
  also have "\<dots> = run_pool E (concat (map (\<lambda>i. [i, i, i]) [Suc n..<Suc n + length ps]))
                    ((ready @ [Returned (Inr t)]) @ map Submitted ps) w1"
    using run_pool_three [OF n run, of E _ w] t upd by (simp add: w1_def)
  also have "\<dots> = ((ready @ [Returned (Inr t)]) @ map (\<lambda>(p, t). Returned (Inr t)) (fst (resolve_each E ps w1)),
          snd (resolve_each E ps w1))"
    using Cons.prems by (intro Cons.IH) simp_all
  also have "\<dots> = (ready @ map (\<lambda>(p, t). Returned (Inr t)) (fst (resolve_each E (p # ps) w)),
          snd (resolve_each E (p # ps) w))"
    using call by (simp add: case_prod_unfold)
  finally show ?case .
qed

lemma resolve_each_paths:
  "map fst (fst (resolve_each E ps w)) = ps"
  by (induction ps arbitrary: w) (auto simp: case_prod_unfold)


lemma batch_in_turn:
  "batch_process_thumbnails_silent E (in_turn (length ps)) (\<lambda>i. False) ps w =
     (Inr (fst (resolve_each E ps w)), snd (resolve_each E ps w))"
proof -
  let ?pairs = "fst (resolve_each E ps w)"
  let ?tasks = "map (\<lambda>(p, t). Returned (Inr t)) ?pairs"
  let ?fs = "zip [0..<length ps] ps"
  have len: "length ?pairs = length ps"
    using resolve_each_paths [of E ps w] by (metis length_map)
  have rp: "run_pool E (in_turn (length ps)) (map Submitted ps) w = (?tasks, snd (resolve_each E ps w))"
    using run_pool_in_turn [of "[]" 0 E ps w] by (simp add: in_turn_def)
  have fr: "future_result ?tasks (\<lambda>i. False) i = Inr (snd (?pairs ! i))" if "i < length ps" for i
    using that len by (simp add: future_result_def case_prod_unfold)
  have "\<forall>(i, p) \<in> set ?fs. \<forall>e. future_result ?tasks (\<lambda>i. False) i = Inl e \<longrightarrow> is_Exception e"
    using fr by (auto dest!: set_zip_leftD)
  then have aw: "await_results (future_result ?tasks (\<lambda>i. False)) ?fs [] =
      Inr ([] @ map (\<lambda>(i, p). (p, case future_result ?tasks (\<lambda>i. False) i of Inr t \<Rightarrow> t | Inl e \<Rightarrow> p)) ?fs)"
    by (rule await_results_eq)
  have "map (\<lambda>(i, p). (p, case future_result ?tasks (\<lambda>i. False) i of Inr t \<Rightarrow> t | Inl e \<Rightarrow> p)) ?fs = ?pairs"
  proof (rule nth_equalityI)
    show "length (map (\<lambda>(i, p). (p, case future_result ?tasks (\<lambda>i. False) i of Inr t \<Rightarrow> t | Inl e \<Rightarrow> p)) ?fs)
          = length ?pairs"
      using len by simp
  next
    fix i
    assume "i < length (map (\<lambda>(i, p). (p, case future_result ?tasks (\<lambda>i. False) i of Inr t \<Rightarrow> t | Inl e \<Rightarrow> p)) ?fs)"
    then have i: "i < length ps" by simp
    have "fst (?pairs ! i) = ps ! i"
      using resolve_each_paths [of E ps w] i len by (metis nth_map)
    then show "map (\<lambda>(i, p). (p, case future_result ?tasks (\<lambda>i. False) i of Inr t \<Rightarrow> t | Inl e \<Rightarrow> p)) ?fs ! i
          = ?pairs ! i"
      using i fr [OF i] by (simp add: prod_eq_iff)
  qed
  then show ?thesis
    using rp aw by (simp add: batch_process_thumbnails_silent_def)
qed

lemma batch_example:
  "fst (batch_process_thumbnails_silent example_env [2, 0, 1, 2, 0, 1, 2, 0, 1] (\<lambda>i. i = 1)
       [''a.jpg'', ''b.jpg'', ''bad.jpg''] example_world) =
   Inr [(''a.jpg'', ''cache/thumbnails/00000000000000000000000000000003_thumb.webp''),
        (''b.jpg'', ''b.jpg''), (''bad.jpg'', ''bad.jpg'')]"
  by code_simp

text \<open>
  The order of the steps decides what the tasks do: \<open>a.jpg\<close> and \<open>b.jpg\<close> hold the
  same bytes, and when the two tasks advance side by side both find the artifact missing
  and both run the transcoder; when they run one after the other, the second finds the
  artifact of the first.
\<close>

lemma interleaved_tasks_both_transcode:
  "filter is_transcode (new_events example_world
     (snd (run_pool example_env [0, 1, 0, 1, 0, 1] (map Submitted [''a.jpg'', ''b.jpg'']) example_world))) =
   [EvTranscode ''a.jpg'' ''cache/thumbnails/00000000000000000000000000000003_thumb.webp'' (Inr True),
    EvTranscode ''b.jpg'' ''cache/thumbnails/00000000000000000000000000000003_thumb.webp'' (Inr True)]"
  by code_simp

lemma tasks_in_turn_transcode_once:
  "filter is_transcode (new_events example_world
     (snd (run_pool example_env (in_turn 2) (map Submitted [''a.jpg'', ''b.jpg'']) example_world))) =
   [EvTranscode ''a.jpg'' ''cache/thumbnails/00000000000000000000000000000003_thumb.webp'' (Inr True)]"
  by code_simp

section \<open>The size of a thumbnail and the image the transcoder writes\<close>

text \<open>
  The size \<open>thumbnail_size\<close> gives is within the box and within the source, and one of
  its sides is the source's ratio applied to the other, less than a pixel off. A
  transcoding that returns \<open>True\<close> has opened, converted, resized and saved.
\<close>

lemma ceil_div_le:
  fixes a b m :: nat
  assumes "0 < b" "a \<le> m * b"
  shows "(a + b - 1) div b \<le> m"
proof -
  have "a + b - 1 < (m + 1) * b" using assms by simp
  then have "(a + b - 1) div b < m + 1"
    using assms(1) by (simp add: less_mult_imp_div_less)
  then show ?thesis by simp
qed

lemma round_aspect_le:
  assumes "0 < b" "a \<le> m * b" "1 \<le> m"
  shows "round_aspect a b closer \<le> m"
proof -
  have hi: "(a + b - 1) div b \<le> m" by (rule ceil_div_le [OF assms(1) assms(2)])
  have "a div b \<le> (a + b - 1) div b" using assms(1) by (intro div_le_mono) simp
  then have lo: "a div b \<le> m" using hi by simp
  show ?thesis using hi lo assms(3) by (simp add: round_aspect_def Let_def)
qed

lemma floor_close:
  fixes a b :: nat
  assumes "0 < b"
  shows "\<bar>int (a div b) * int b - int a\<bar> < int b"
proof -
  have "a = (a div b) * b + a mod b" by simp
  then have "int a = int (a div b) * int b + int (a mod b)"
    by (metis of_nat_add of_nat_mult)
  moreover have "a mod b < b" using assms by simp
  ultimately show ?thesis by simp
qed

lemma ceil_close:
  fixes a b :: nat
  assumes "0 < b"
  shows "\<bar>int ((a + b - 1) div b) * int b - int a\<bar> < int b"
proof -
  let ?c = "(a + b - 1) div b"
  have e: "a + b - 1 = ?c * b + (a + b - 1) mod b" by simp
  have m: "(a + b - 1) mod b < b" using assms by simp
  have "int a + int b - 1 = int ?c * int b + int ((a + b - 1) mod b)"
  proof -
    have "int (a + b - 1) = int a + int b - 1" using assms by (simp add: of_nat_diff)
    moreover have "int (a + b - 1) = int ?c * int b + int ((a + b - 1) mod b)"
      using e by (metis of_nat_add of_nat_mult)
    ultimately show ?thesis by simp
  qed
  then have "int ?c * int b - int a = int b - 1 - int ((a + b - 1) mod b)" by simp
  moreover have "0 \<le> int b - 1 - int ((a + b - 1) mod b)" using m by simp
  ultimately show ?thesis by simp
qed

lemma round_aspect_close:
  assumes "0 < b" "0 < a"
  shows "\<bar>int (round_aspect a b closer) * int b - int a\<bar> < int b"
proof -
  define r where "r = (if closer (a div b) ((a + b - 1) div b) then a div b else (a + b - 1) div b)"
  have r: "\<bar>int r * int b - int a\<bar> < int b"
    using floor_close [OF assms(1), of a] ceil_close [OF assms(1), of a] by (simp add: r_def)
  have ra: "round_aspect a b closer = max r 1" by (simp add: round_aspect_def r_def Let_def)
  show ?thesis
  proof (cases "r = 0")
    case True
    then show ?thesis using assms r by (simp add: ra)
  next
    case False
    then have "max r 1 = r" by simp
    then show ?thesis using r by (simp add: ra)
  qed
qed

lemma thumbnail_size_bounds:
  assumes t: "thumbnail_size (width, height) (x, y) = Inr (x', y')"
    and pos: "0 < width" "0 < height"
  shows "x' \<le> x \<and> y' \<le> y \<and> x' \<le> width \<and> y' \<le> height"
proof (cases "width \<le> x \<and> height \<le> y")
  case True
  then show ?thesis using t by (simp add: thumbnail_size_def)
next
  case big: False
  then have y: "0 < y" using t pos by (auto simp: thumbnail_size_def split: if_splits)
  show ?thesis
  proof (cases "width * y \<le> x * height")
    case True
    then have x': "x' = round_aspect (y * width) height
                    (\<lambda>lo hi. \<bar>int width * int y - int lo * int height\<bar>
                              \<le> \<bar>int width * int y - int hi * int height\<bar>)" and y': "y' = y"
      using t big y pos by (auto simp: thumbnail_size_def)
    have "0 < x * height" using True y pos by (metis mult_pos_pos not_le less_le_trans nat_0_less_mult_iff le_0_eq neq0_conv mult_is_0)
    then have x1: "1 \<le> x" by (cases x) simp_all
    have yh: "y < height"
    proof (rule ccontr)
      assume "\<not> y < height"
      then have hy: "height \<le> y" by simp
      then have "x < width" using big by simp
      then have "x * height < width * height" using pos by simp
      also have "\<dots> \<le> width * y" using hy by simp
      finally show False using True by simp
    qed
    have "y * width \<le> x * height" using True by (simp add: mult.commute)
    then have a: "x' \<le> x" unfolding x' using pos x1 by (intro round_aspect_le) simp_all
    have "y * width \<le> width * height" using yh by (simp add: mult.commute)
    then have b: "x' \<le> width" unfolding x' using pos by (intro round_aspect_le) simp_all
    show ?thesis using a b y' yh by simp
  next
    case False
    then have y': "y' = round_aspect (x * height) width
                    (\<lambda>lo hi. lo = 0 \<or>
                       \<bar>int width * int lo - int x * int height\<bar> * int hi
                         \<le> \<bar>int width * int hi - int x * int height\<bar> * int lo)" and x': "x' = x"
      using t big y pos by (auto simp: thumbnail_size_def)
    have lt: "x * height < width * y" using False by simp
    have xw: "x < width"
    proof (rule ccontr)
      assume "\<not> x < width"
      then have wx: "width \<le> x" by simp
      then have "y < height" using big by simp
      then have "width * y < width * height" using pos by simp
      also have "\<dots> \<le> x * height" using wx by simp
      finally show False using lt by simp
    qed
    have "x * height \<le> y * width" using lt by (simp add: mult.commute)
    then have a: "y' \<le> y" unfolding y' using pos y by (intro round_aspect_le) simp_all
    have "x * height \<le> height * width" using xw by (simp add: mult.commute)
    then have b: "y' \<le> height" unfolding y' using pos by (intro round_aspect_le) simp_all
    show ?thesis using a b x' xw by simp
  qed
qed

lemma thumbnail_size_aspect:
  assumes t: "thumbnail_size (width, height) (x, y) = Inr (x', y')"
    and pos: "0 < width" "0 < height" and x: "0 < x"
  shows "\<bar>int x' * int height - int y' * int width\<bar> < int (max width height)"
proof (cases "width \<le> x \<and> height \<le> y")
  case True
  then show ?thesis using t pos by (simp add: thumbnail_size_def mult.commute)
next
  case big: False
  then have y: "0 < y" using t pos by (auto simp: thumbnail_size_def split: if_splits)
  show ?thesis
  proof (cases "width * y \<le> x * height")
    case True
    then have x': "x' = round_aspect (y * width) height
                    (\<lambda>lo hi. \<bar>int width * int y - int lo * int height\<bar>
                              \<le> \<bar>int width * int y - int hi * int height\<bar>)" and y': "y' = y"
      using t big y pos by (auto simp: thumbnail_size_def)
    have "\<bar>int x' * int height - int (y * width)\<bar> < int height"
      unfolding x' using pos y by (intro round_aspect_close) simp_all
    then show ?thesis by (simp add: y')
  next
    case False
    then have y': "y' = round_aspect (x * height) width
                    (\<lambda>lo hi. lo = 0 \<or>
                       \<bar>int width * int lo - int x * int height\<bar> * int hi
                         \<le> \<bar>int width * int hi - int x * int height\<bar> * int lo)" and x': "x' = x"
      using t big y pos by (auto simp: thumbnail_size_def)
    have "\<bar>int y' * int width - int (x * height)\<bar> < int width"
      unfolding y' using pos x by (intro round_aspect_close) simp_all
    then have "\<bar>int x' * int height - int y' * int width\<bar> < int width"
      by (simp add: x' abs_minus_commute)
    then show ?thesis by simp
  qed
qed

lemma optimize_try_True:
  assumes "optimize_image_for_web_try E src dst sz q fmt w = (Inr True, w')"
  shows "\<exists>img img1 out b.
     Image_open E src w = Inr img \<and>
     (if img_mode img \<in> set [''RGBA'', ''LA'', ''P''] then pil_convert E img ''RGB'' else Inr img) = Inr img1 \<and>
     pil_thumbnail E img1 sz = Inr out \<and>
     pil_save E w out dst \<lparr>kw_format = fmt, kw_quality = q, kw_optimize = True,
                             kw_method = (if upper fmt = ''WEBP'' then Some 6 else None)\<rparr> = Saved b \<and>
     w' = w\<lparr>files := (files w)(dst \<mapsto> File b)\<rparr>"
proof (cases "Image_open E src w")
  case (Inl e)
  then show ?thesis using assms by (simp add: optimize_image_for_web_try_def)
next
  case (Inr img)
  let ?conv = "if img_mode img \<in> set [''RGBA'', ''LA'', ''P''] then pil_convert E img ''RGB'' else Inr img"
  show ?thesis
  proof (cases ?conv)
    case (Inl e)
    then show ?thesis using assms Inr by (simp add: optimize_image_for_web_try_def)
  next
    case conv: (Inr img1)
    show ?thesis
    proof (cases "pil_thumbnail E img1 sz")
      case (Inl e)
      then show ?thesis using assms Inr conv by (simp add: optimize_image_for_web_try_def)
    next
      case thumb: (Inr out)
      let ?kw = "\<lparr>kw_format = fmt, kw_quality = q, kw_optimize = True,
                        kw_method = (if upper fmt = ''WEBP'' then Some 6 else None)\<rparr>"
      show ?thesis
      proof (cases "pil_save E w out dst ?kw")
        case (Saved b)
        then have "w' = w\<lparr>files := (files w)(dst \<mapsto> File b)\<rparr>"
          using assms Inr conv thumb by (simp add: optimize_image_for_web_try_def)
        then show ?thesis using Inr conv thumb Saved by blast
      next
        case (SaveRaised e left)
        then show ?thesis using assms Inr conv thumb by (simp add: optimize_image_for_web_try_def)
      qed
    qed
  qed
qed

lemma optimize_True:
  assumes "optimize_image_for_web E src dst sz q fmt w = (Inr True, w')"
  shows "optimize_image_for_web_try E src dst sz q fmt w =
           (Inr True, snd (optimize_image_for_web_try E src dst sz q fmt w)) \<and>
         files w' = files (snd (optimize_image_for_web_try E src dst sz q fmt w))"
proof -
  obtain r u where t: "optimize_image_for_web_try E src dst sz q fmt w = (r, u)"
    by (cases "optimize_image_for_web_try E src dst sz q fmt w")
  have "r = Inr True"
    using assms t by (cases r) (auto simp: optimize_image_for_web_def Let_def split: if_splits)
  moreover have "files w' = files u"
    using assms t by (auto simp: optimize_image_for_web_def Let_def record_event_def)
  ultimately show ?thesis using t by simp
qed

section \<open>Fallback keys and content keys\<close>

text \<open>
  Claim C9 says that some unreadable path and some readable file exist for which the
  path-based fallback key of the first equals the content key of the second. The code
  excludes it: the fallback key is the decimal text of a signed 64-bit integer, at most
  20 characters, and a content key is 32 hexadecimal digits. The statement below is the
  negation of the claim.
\<close>

theorem fallback_collision_counterexample:
  "\<not> (\<exists>E w p q e data. p \<noteq> q \<and> open_read p w = Inl e \<and> open_read q w = Inr data \<and>
        fst (get_image_hash_body E p w) = fst (get_image_hash_body E q w))"
  by (auto simp: get_image_hash_body_def fallback_key_not_hexdigest)

text \<open>
  Claim C9, as amended: for every path that cannot be read and every readable file, the
  fallback key that \<open>get_image_hash\<close> computes for the first differs from the content
  key it computes for the second.
\<close>

theorem fallback_key_distinct:
  assumes "open_read p w = Inl e" and "open_read q w = Inr data"
  shows "fst (get_image_hash_body E p w) \<noteq> fst (get_image_hash_body E q w)"
  using assms by (simp add: get_image_hash_body_def fallback_key_not_hexdigest)

theorem fallback_key_distinct_witness:
  "open_read ''locked.jpg'' example_world = Inl PermissionError \<and>
   open_read ''a.jpg'' example_world = Inr [1, 2, 3] \<and>
   fst (get_image_hash_body example_env ''locked.jpg'' example_world) \<noteq>
   fst (get_image_hash_body example_env ''a.jpg'' example_world)"
  using fallback_key_distinct [of "''locked.jpg''" example_world PermissionError
      "''a.jpg''" "[1, 2, 3]" example_env]
  by (simp add: open_read_def example_world_def)

section \<open>The gallery lister returns the image files, sorted\<close>

text \<open>
  Claim C6 says that the lister returns the image files of the gallery directory, and
  the empty list when the directory does not exist. The decorator of
  \<open>obtener_imagenes_galeria\<close> keeps a listing for 1800 seconds: in \<open>emptied_world\<close>
  the directory of the gallery \<open>boda\<close> has been removed after a listing, and the
  lister returns the two images the directory held.
\<close>

theorem stale_listing_counterexample:
  "files emptied_world ''imagenes/Galerias/boda'' = None \<and>
   fst (os_path_exists ''imagenes/Galerias/boda'' emptied_world) = False \<and>
   fst (obtener_imagenes_galeria ''boda'' emptied_world) =
     Inr [''imagenes/Galerias/boda/photo1.JPG'', ''imagenes/Galerias/boda/photo1.jpg'']"
  by code_simp

text \<open>
  Claim C6, as amended: let the table of the decorator hold no listing of the gallery,
  or the listing the directory gives now (\<open>memo_fresh\<close>). For a gallery whose
  directory does not exist, \<open>obtener_imagenes_galeria\<close> returns the empty list; for
  a gallery directory with the entries \<open>names\<close> it returns the paths of exactly the
  entries whose name ends, without regard to case, with one of the extensions jpg,
  jpeg, png and webp: each of them once, in ascending order, and the path of no other
  entry.
\<close>

theorem gallery_listing:
  assumes fresh: "memo_fresh (gallery_memo w) g (fst (obtener_imagenes_galeria_body g w))"
  shows "(files w (''imagenes/Galerias/'' @ g) = None \<longrightarrow>
            fst (obtener_imagenes_galeria g w) = Inr []) \<and>
         (\<forall>names. files w (''imagenes/Galerias/'' @ g) = Some (Dir names) \<longrightarrow>
            (\<exists>imgs. fst (obtener_imagenes_galeria g w) = Inr imgs \<and>
               sorted imgs \<and> distinct imgs \<and>
               set imgs = gallery_path g ` {a \<in> set names. has_image_extension a} \<and>
               (\<forall>a \<in> set names. \<not> has_image_extension a \<longrightarrow> gallery_path g a \<notin> set imgs)))"
proof -
  have call: "fst (obtener_imagenes_galeria g w) = fst (obtener_imagenes_galeria_body g w)"
    unfolding obtener_imagenes_galeria_def using fresh by (rule st_cache_data_fresh)
  have missing: "fst (obtener_imagenes_galeria g w) = Inr []"
    if "files w (''imagenes/Galerias/'' @ g) = None"
    using that by (simp add: call galeria_body_missing)
  have listed: "\<exists>imgs. fst (obtener_imagenes_galeria g w) = Inr imgs \<and>
               sorted imgs \<and> distinct imgs \<and>
               set imgs = gallery_path g ` {a \<in> set names. has_image_extension a} \<and>
               (\<forall>a \<in> set names. \<not> has_image_extension a \<longrightarrow> gallery_path g a \<notin> set imgs)"
    if dir: "files w (''imagenes/Galerias/'' @ g) = Some (Dir names)" for names
  proof -
    let ?imgs = "sort (remdups (map (gallery_path g) (filter has_image_extension names)))"
    have r: "fst (obtener_imagenes_galeria g w) = Inr ?imgs"
      by (simp add: call galeria_body_dir [OF dir])
    have s: "set ?imgs = gallery_path g ` {a \<in> set names. has_image_extension a}"
      by simp
    have "gallery_path g a \<notin> set ?imgs" if "\<not> has_image_extension a" for a
    proof
      assume "gallery_path g a \<in> set ?imgs"
      then obtain b where "has_image_extension b" "gallery_path g a = gallery_path g b"
        unfolding s by blast
      then have "has_image_extension a"
        using has_image_extension_gallery_path [of g a] has_image_extension_gallery_path [of g b]
        by simp
      then show False using that by simp
    qed
    then show ?thesis using r s by (intro exI [of _ ?imgs]) simp
  qed
  show ?thesis using missing listed by blast
qed

theorem gallery_listing_witness:
  "memo_fresh (gallery_memo example_world) ''boda''
     (fst (obtener_imagenes_galeria_body ''boda'' example_world)) \<and>
   files example_world (''imagenes/Galerias/'' @ ''boda'') =
     Some (Dir [''photo1.JPG'', ''photo1.jpg'', ''notes.txt'']) \<and>
   (\<exists>imgs. fst (obtener_imagenes_galeria ''boda'' example_world) = Inr imgs \<and>
      sorted imgs \<and> distinct imgs \<and>
      set imgs = gallery_path ''boda'' `
        {a \<in> set [''photo1.JPG'', ''photo1.jpg'', ''notes.txt'']. has_image_extension a} \<and>
      gallery_path ''boda'' ''notes.txt'' \<notin> set imgs)"
proof -
  let ?names = "[''photo1.JPG'', ''photo1.jpg'', ''notes.txt'']"
  have fresh: "memo_fresh (gallery_memo example_world) ''boda''
     (fst (obtener_imagenes_galeria_body ''boda'' example_world))"
    by (simp add: memo_fresh_def example_world_def)
  have dir: "files example_world (''imagenes/Galerias/'' @ ''boda'') = Some (Dir ?names)"
    by (simp add: example_world_def)
  have excl: "\<not> has_image_extension ''notes.txt''"
    by (simp add: has_image_extension_def endswith_def lower_def lower_char_def)
  obtain imgs where imgs: "fst (obtener_imagenes_galeria ''boda'' example_world) = Inr imgs"
      "sorted imgs" "distinct imgs"
      "set imgs = gallery_path ''boda'' ` {a \<in> set ?names. has_image_extension a}"
      "\<forall>a \<in> set ?names. \<not> has_image_extension a \<longrightarrow> gallery_path ''boda'' a \<notin> set imgs"
    using gallery_listing [OF fresh] dir by blast
  have "''notes.txt'' \<in> set ?names" by simp
  then have "gallery_path ''boda'' ''notes.txt'' \<notin> set imgs"
    using imgs(5) excl by blast
  then show ?thesis
    using fresh dir imgs(1-4) by blast
qed

section \<open>A failed resolution serves the original\<close>

text \<open>
  Claim C2: \<open>get_or_create_thumbnail\<close> and \<open>get_or_create_preview\<close> always
  return a path and never raise, whatever the libraries and the file system do; and
  when the call ran the transcoder and the transcoder did not return \<open>True\<close> (it
  returned \<open>False\<close>, or raised past its own handler), the path returned is the
  source path.
\<close>

theorem resolver_degrades_to_source:
  "(\<exists>r w'. get_or_create_thumbnail E p w = (Inr r, w') \<and>
      (\<forall>dst res. EvTranscode p dst res \<in> set (new_events w w') \<longrightarrow> res \<noteq> Inr True \<longrightarrow> r = p)) \<and>
   (\<exists>r w'. get_or_create_preview E p w = (Inr r, w') \<and>
      (\<forall>dst res. EvTranscode p dst res \<in> set (new_events w w') \<longrightarrow> res \<noteq> Inr True \<longrightarrow> r = p))"
  using thumbnail_call_failure preview_call_failure by blast


theorem resolver_degrades_to_source_witness:
  "(\<exists>w' dst. get_or_create_thumbnail full_disk_env ''a.jpg'' example_world = (Inr ''a.jpg'', w') \<and>
      EvTranscode ''a.jpg'' dst (Inr False) \<in> set (new_events example_world w')) \<and>
   (\<exists>w' dst. get_or_create_preview full_disk_env ''a.jpg'' example_world = (Inr ''a.jpg'', w') \<and>
      EvTranscode ''a.jpg'' dst (Inr False) \<in> set (new_events example_world w'))"
proof -
  let ?t = "get_or_create_thumbnail full_disk_env ''a.jpg'' example_world"
  let ?p = "get_or_create_preview full_disk_env ''a.jpg'' example_world"
  have et: "EvTranscode ''a.jpg'' ''cache/thumbnails/00000000000000000000000000000003_thumb.webp''
       (Inr False) \<in> set (new_events example_world (snd ?t))"
    by code_simp
  have ep: "EvTranscode ''a.jpg'' ''cache/previews/00000000000000000000000000000003_preview.webp''
       (Inr False) \<in> set (new_events example_world (snd ?p))"
    by code_simp
  obtain r w' where t: "?t = (Inr r, w')"
    and tf: "\<forall>dst res. EvTranscode ''a.jpg'' dst res \<in> set (new_events example_world w') \<longrightarrow>
               res \<noteq> Inr True \<longrightarrow> r = ''a.jpg''"
    using resolver_degrades_to_source [of full_disk_env "''a.jpg''" example_world] by blast
  obtain r' w'' where p: "?p = (Inr r', w'')"
    and pf: "\<forall>dst res. EvTranscode ''a.jpg'' dst res \<in> set (new_events example_world w'') \<longrightarrow>
               res \<noteq> Inr True \<longrightarrow> r' = ''a.jpg''"
    using resolver_degrades_to_source [of full_disk_env "''a.jpg''" example_world] by blast
  have "r = ''a.jpg''" using tf et t by (metis snd_conv sum.inject(2))
  moreover have "r' = ''a.jpg''" using pf ep p by (metis snd_conv sum.inject(2))
  ultimately show ?thesis using t p et ep by (metis snd_conv)
qed

section \<open>A second resolution is a cache hit\<close>

text \<open>
  Claim C1 says that after a call of \<open>get_or_create_thumbnail\<close> has created the
  artifact of a source, a second call returns the same path and runs no transcoder. The
  key of a source is memoized by the decorator of \<open>get_image_hash\<close>, and the
  resolver reads it there: in \<open>stale_world\<close> the table holds the fallback key \<open>10\<close>
  of \<open>locked.jpg\<close>, which has become readable. The first call creates
  \<open>cache/thumbnails/10_thumb.webp\<close>. When the memoized key and the memoized result
  have expired, the second call computes the key from the bytes, runs the transcoder
  again and returns another path.
\<close>

theorem stale_key_second_resolve_counterexample:
  "\<exists>w1 w2.
     hash_memo stale_world ''locked.jpg'' = Some ''10'' \<and>
     open_read ''locked.jpg'' stale_world = Inr [1, 2, 3] \<and>
     get_or_create_thumbnail example_env ''locked.jpg'' stale_world =
       (Inr ''cache/thumbnails/10_thumb.webp'', w1) \<and>
     EvTranscode ''locked.jpg'' ''cache/thumbnails/10_thumb.webp'' (Inr True)
       \<in> set (new_events stale_world w1) \<and>
     files w1 ''cache/thumbnails/10_thumb.webp'' = Some (File [1, 2, 3]) \<and>
     get_or_create_thumbnail example_env ''locked.jpg'' (expire {''locked.jpg''} {''locked.jpg''} {} {} w1) =
       (Inr ''cache/thumbnails/00000000000000000000000000000003_thumb.webp'', w2) \<and>
     EvTranscode ''locked.jpg'' ''cache/thumbnails/00000000000000000000000000000003_thumb.webp'' (Inr True)
       \<in> set (new_events (expire {''locked.jpg''} {''locked.jpg''} {} {} w1) w2)"
proof -
  let ?c = "get_or_create_thumbnail example_env ''locked.jpg'' stale_world"
  let ?d = "get_or_create_thumbnail example_env ''locked.jpg''
              (expire {''locked.jpg''} {''locked.jpg''} {} {} (snd ?c))"
  have "hash_memo stale_world ''locked.jpg'' = Some ''10''" by code_simp
  moreover have "open_read ''locked.jpg'' stale_world = Inr [1, 2, 3]" by code_simp
  moreover have "fst ?c = Inr ''cache/thumbnails/10_thumb.webp''" by code_simp
  moreover have "EvTranscode ''locked.jpg'' ''cache/thumbnails/10_thumb.webp'' (Inr True)
       \<in> set (new_events stale_world (snd ?c))" by code_simp
  moreover have "files (snd ?c) ''cache/thumbnails/10_thumb.webp'' = Some (File [1, 2, 3])" by code_simp
  moreover have "fst ?d = Inr ''cache/thumbnails/00000000000000000000000000000003_thumb.webp''"
    by code_simp
  moreover have "EvTranscode ''locked.jpg'' ''cache/thumbnails/00000000000000000000000000000003_thumb.webp'' (Inr True)
       \<in> set (new_events (expire {''locked.jpg''} {''locked.jpg''} {} {} (snd ?c)) (snd ?d))"
    by code_simp
  ultimately show ?thesis by (metis prod.collapse)
qed

text \<open>
  Claim C1, as amended: let a call of \<open>get_or_create_thumbnail\<close> for the source \<open>X\<close>
  have created the artifact \<open>a\<close>: the call ran the transcoder from \<open>X\<close> to \<open>a\<close>
  and the transcoder returned \<open>True\<close>; and let the key memoized for \<open>X\<close> before that
  call, if there was one, be the key of the bytes of \<open>X\<close> (\<open>memo_fresh\<close>). Then the
  call returned \<open>a\<close>, and a second call for \<open>X\<close> returns \<open>a\<close> again, whichever
  entries of the decorators' tables have expired in between (\<open>H\<close>, \<open>T\<close>, \<open>P\<close>,
  \<open>G\<close>). The second call changes no file and runs no transcoder: it does nothing (its
  result was memoized), or it ends with the existence check of \<open>a\<close>, preceded by the
  read of \<open>X\<close> when the key had expired too.
\<close>

theorem second_resolve_hits_cache:
  assumes first: "get_or_create_thumbnail E X w = (r1, w1)"
    and created: "EvTranscode X a (Inr True) \<in> set (new_events w w1)"
    and fresh: "memo_fresh (hash_memo w) X (fst (get_image_hash_body E X w))"
  shows "r1 = Inr a \<and>
         (\<exists>w2. get_or_create_thumbnail E X (expire H T P G w1) = (r1, w2) \<and>
            files w2 = files w1 \<and>
            new_events (expire H T P G w1) w2 \<in> {[], [EvExists a], [EvRead X, EvExists a]})"
proof -
  let ?tp = "\<lambda>k. os_path_join THUMBNAILS_DIR (k @ ''_thumb.webp'')"
  \<comment> \<open>the first call ran the body, and the body made the artifact\<close>
  obtain r w' where body1: "get_or_create_thumbnail_body E X w = (Inr r, w')"
    and call1: "get_or_create_thumbnail E X w = (Inr r, w'\<lparr>thumbnail_memo := (thumbnail_memo w')(X \<mapsto> r)\<rparr>)"
  proof -
    have "\<not> (\<exists>v. get_or_create_thumbnail E X w = (Inr v, w))"
      using first created by (auto simp: new_events_def)
    then show thesis using thumbnail_call_shape [of w X E] that by blast
  qed
  have w1: "w1 = w'\<lparr>thumbnail_memo := (thumbnail_memo w')(X \<mapsto> r)\<rparr>" and r1: "r1 = Inr r"
    using first call1 by simp_all
  have ev1: "EvTranscode X a (Inr True) \<in> set (new_events w w')"
    using created by (simp add: w1 new_events_def)
  obtain k b data where key: "fst (get_image_hash_body E X w) = Inr k"
    and a: "a = ?tp k" and absent: "files w a = None" and src: "open_read X w = Inr data"
    and r: "r = a"
    and fw': "files w' = (files w)(a \<mapsto> File b)" and hw': "hash_memo w' = (hash_memo w)(X \<mapsto> k)"
  proof (cases rule: thumbnail_body_cases [of w X E])
    case (hit k evh)
    then have "new_events w w' = evh @ [EvExists (?tp k)]"
      using body1 by (auto simp: new_events_def)
    then have False using ev1 hit(1) by auto
    then show ?thesis ..
  next
    case (failed k evh res fs)
    then have "new_events w w' = evh @ [EvExists (?tp k), EvTranscode X (?tp k) res]"
      using body1 by (auto simp: new_events_def)
    then have False using ev1 failed(1,3) by auto
    then show ?thesis ..
  next
    case (made k evh b data)
    then have ne: "new_events w w' = evh @ [EvExists (?tp k), EvTranscode X (?tp k) (Inr True)]"
      using body1 by (auto simp: new_events_def)
    then have a: "a = ?tp k" using ev1 made(1) by auto
    have key: "fst (get_image_hash_body E X w) = Inr k"
      using made(1) fresh by (auto simp: memo_fresh_def)
    show ?thesis
      using that [of k data b] key a made body1 by auto
  qed
  have k: "k = hexdigest (hashlib_md5 E data)"
    using key hash_body_readable [OF src, of E] by simp
  have Xa: "X \<noteq> a"
    using src absent by (auto simp: open_read_Inr)
  \<comment> \<open>the world of the second call\<close>
  define v where "v = expire H T P G w1"
  have fv: "files v = (files w)(a \<mapsto> File b)"
    by (simp add: v_def expire_def w1 fw')
  have hv: "hash_memo v X = None \<or> hash_memo v X = Some k"
    by (simp add: v_def expire_def w1 hw' restrict_map_def)
  have tv: "thumbnail_memo v X = None \<or> thumbnail_memo v X = Some a"
    by (simp add: v_def expire_def w1 r restrict_map_def)
  have srcv: "open_read X v = Inr data"
    using src Xa by (simp add: open_read_Inr fv)
  have keyv: "fst (get_image_hash_body E X v) = Inr k"
    using hash_body_readable [OF srcv, of E] k by simp
  have bodyv: "\<exists>evh u. (evh = [] \<or> evh = [EvRead X]) \<and> files u = files v \<and> log u = log v @ evh @ [EvExists a] \<and>
      get_or_create_thumbnail_body E X v = (Inr a, u)"
  proof (cases rule: thumbnail_body_cases [of v X E])
    case (hit k' evh)
    then have "k' = k" using hv keyv by auto
    then show ?thesis using hit a by auto
  next
    case (made k' evh b' data')
    then have "k' = k" using hv keyv by auto
    then have False using made(2) fv a by simp
    then show ?thesis ..
  next
    case (failed k' evh res fs)
    then have "k' = k" using hv keyv by auto
    then have False using failed(2) fv a by simp
    then show ?thesis ..
  qed
  have "\<exists>w2. get_or_create_thumbnail E X v = (Inr a, w2) \<and> files w2 = files v \<and>
          new_events v w2 \<in> {[], [EvExists a], [EvRead X, EvExists a]}"
    using tv
  proof
    assume "thumbnail_memo v X = Some a"
    then have "get_or_create_thumbnail E X v = (Inr a, v)"
      by (simp add: get_or_create_thumbnail_def st_cache_data_def)
    then show ?thesis by (simp add: new_events_def)
  next
    assume none: "thumbnail_memo v X = None"
    obtain evh u where evh: "evh = [] \<or> evh = [EvRead X]" and fu: "files u = files v"
      and lu: "log u = log v @ evh @ [EvExists a]"
      and bu: "get_or_create_thumbnail_body E X v = (Inr a, u)"
      using bodyv by blast
    have "get_or_create_thumbnail E X v = (Inr a, u\<lparr>thumbnail_memo := (thumbnail_memo u)(X \<mapsto> a)\<rparr>)"
      using none bu by (simp add: get_or_create_thumbnail_def st_cache_data_def)
    moreover have "new_events v (u\<lparr>thumbnail_memo := (thumbnail_memo u)(X \<mapsto> a)\<rparr>) = evh @ [EvExists a]"
      by (simp add: new_events_def lu)
    ultimately show ?thesis using evh fu by auto
  qed
  moreover have "files v = files w1" by (simp add: v_def expire_def)
  ultimately show ?thesis
    unfolding v_def r1 r by auto
qed


theorem second_resolve_hits_cache_witness:
  "\<exists>w1 w2.
     get_or_create_thumbnail example_env ''a.jpg'' example_world =
       (Inr ''cache/thumbnails/00000000000000000000000000000003_thumb.webp'', w1) \<and>
     EvTranscode ''a.jpg'' ''cache/thumbnails/00000000000000000000000000000003_thumb.webp'' (Inr True)
       \<in> set (new_events example_world w1) \<and>
     memo_fresh (hash_memo example_world) ''a.jpg''
       (fst (get_image_hash_body example_env ''a.jpg'' example_world)) \<and>
     get_or_create_thumbnail example_env ''a.jpg'' (expire UNIV UNIV UNIV UNIV w1) =
       (Inr ''cache/thumbnails/00000000000000000000000000000003_thumb.webp'', w2) \<and>
     files w2 = files w1 \<and>
     new_events (expire UNIV UNIV UNIV UNIV w1) w2 \<in>
       {[], [EvExists ''cache/thumbnails/00000000000000000000000000000003_thumb.webp''],
        [EvRead ''a.jpg'', EvExists ''cache/thumbnails/00000000000000000000000000000003_thumb.webp'']}"
proof -
  let ?a = "''cache/thumbnails/00000000000000000000000000000003_thumb.webp''"
  let ?c = "get_or_create_thumbnail example_env ''a.jpg'' example_world"
  have first: "?c = (fst ?c, snd ?c)" by simp
  have created: "EvTranscode ''a.jpg'' ?a (Inr True) \<in> set (new_events example_world (snd ?c))"
    by code_simp
  have fresh: "memo_fresh (hash_memo example_world) ''a.jpg''
       (fst (get_image_hash_body example_env ''a.jpg'' example_world))"
    by (simp add: memo_fresh_def example_world_def)
  have "fst ?c = Inr ?a \<and>
         (\<exists>w2. get_or_create_thumbnail example_env ''a.jpg'' (expire UNIV UNIV UNIV UNIV (snd ?c)) = (fst ?c, w2) \<and>
            files w2 = files (snd ?c) \<and>
            new_events (expire UNIV UNIV UNIV UNIV (snd ?c)) w2 \<in> {[], [EvExists ?a], [EvRead ''a.jpg'', EvExists ?a]})"
    by (rule second_resolve_hits_cache [OF first created fresh])
  then show ?thesis using created fresh first by metis
qed

section \<open>Content addressing\<close>




section \<open>The written image fits the box\<close>

text \<open>
  Claim C7: a call of \<open>optimize_image_for_web\<close> that returns \<open>True\<close> has opened the
  source as an image \<open>img\<close>, converted it when its mode is RGBA, LA or P (\<open>img1\<close>),
  called \<open>thumbnail\<close> with the box \<open>target_sz\<close> on it (\<open>out\<close>) and saved \<open>out\<close>
  to the destination, which holds the bytes the save wrote. When the library gives the
  sizes of \<open>pillow_sizes\<close>, the written image is within the box in both directions,
  so its longest side is at most the longest side of the box; neither of its sides is
  longer than that of the source; and, for a box of positive width, one of its sides is
  less than a pixel off the source's ratio applied to the other.
\<close>

theorem transcoded_image_fits_box:
  assumes ok: "optimize_image_for_web E image_path output_path target_sz quality format w = (Inr True, w')"
  shows "\<exists>img img1 out b.
     Image_open E image_path w = Inr img \<and>
     (if img_mode img \<in> set [''RGBA'', ''LA'', ''P''] then pil_convert E img ''RGB'' else Inr img) = Inr img1 \<and>
     pil_thumbnail E img1 target_sz = Inr out \<and>
     pil_save E w out output_path
       \<lparr>kw_format = format, kw_quality = quality, kw_optimize = True,
        kw_method = (if upper format = ''WEBP'' then Some 6 else None)\<rparr> = Saved b \<and>
     files w' = (files w)(output_path \<mapsto> File b) \<and>
     (pillow_sizes img img1 out target_sz \<longrightarrow>
        fst (img_size out) \<le> fst target_sz \<and> snd (img_size out) \<le> snd target_sz \<and>
        max (fst (img_size out)) (snd (img_size out)) \<le> max (fst target_sz) (snd target_sz) \<and>
        fst (img_size out) \<le> fst (img_size img) \<and> snd (img_size out) \<le> snd (img_size img) \<and>
        (0 < fst target_sz \<longrightarrow>
           \<bar>int (fst (img_size out)) * int (snd (img_size img))
             - int (snd (img_size out)) * int (fst (img_size img))\<bar>
           < int (max (fst (img_size img)) (snd (img_size img)))))"
proof -
  let ?kw = "\<lparr>kw_format = format, kw_quality = quality, kw_optimize = True,
        kw_method = (if upper format = ''WEBP'' then Some 6 else None)\<rparr>"
  let ?u = "snd (optimize_image_for_web_try E image_path output_path target_sz quality format w)"
  have t: "optimize_image_for_web_try E image_path output_path target_sz quality format w = (Inr True, ?u)"
    and f: "files w' = files ?u"
    using optimize_True [OF ok] by simp_all
  obtain img img1 out b where
    op: "Image_open E image_path w = Inr img"
    and conv: "(if img_mode img \<in> set [''RGBA'', ''LA'', ''P''] then pil_convert E img ''RGB'' else Inr img) = Inr img1"
    and thumb: "pil_thumbnail E img1 target_sz = Inr out"
    and save: "pil_save E w out output_path ?kw = Saved b"
    and u: "?u = w\<lparr>files := (files w)(output_path \<mapsto> File b)\<rparr>"
    using optimize_try_True [OF t] by blast
  have files: "files w' = (files w)(output_path \<mapsto> File b)"
    using f u by simp
  have sizes: "fst (img_size out) \<le> fst target_sz \<and> snd (img_size out) \<le> snd target_sz \<and>
        max (fst (img_size out)) (snd (img_size out)) \<le> max (fst target_sz) (snd target_sz) \<and>
        fst (img_size out) \<le> fst (img_size img) \<and> snd (img_size out) \<le> snd (img_size img) \<and>
        (0 < fst target_sz \<longrightarrow>
           \<bar>int (fst (img_size out)) * int (snd (img_size img))
             - int (snd (img_size out)) * int (fst (img_size img))\<bar>
           < int (max (fst (img_size img)) (snd (img_size img))))"
    if lib: "pillow_sizes img img1 out target_sz"
  proof -
    obtain width height where sz: "img_size img = (width, height)" by (cases "img_size img")
    obtain x y where box: "target_sz = (x, y)" by (cases target_sz)
    obtain x' y' where o: "img_size out = (x', y')" by (cases "img_size out")
    have pos: "0 < width" "0 < height" and ts: "thumbnail_size (width, height) (x, y) = Inr (x', y')"
      using lib by (auto simp: pillow_sizes_def sz box o)
    have b: "x' \<le> x \<and> y' \<le> y \<and> x' \<le> width \<and> y' \<le> height"
      using thumbnail_size_bounds [OF ts pos] .
    have a: "0 < x \<Longrightarrow> \<bar>int x' * int height - int y' * int width\<bar> < int (max width height)"
      using thumbnail_size_aspect [OF ts pos] .
    show ?thesis using a b by (simp add: sz box o) linarith
  qed
  have imp: "pillow_sizes img img1 out target_sz \<longrightarrow>
        fst (img_size out) \<le> fst target_sz \<and> snd (img_size out) \<le> snd target_sz \<and>
        max (fst (img_size out)) (snd (img_size out)) \<le> max (fst target_sz) (snd target_sz) \<and>
        fst (img_size out) \<le> fst (img_size img) \<and> snd (img_size out) \<le> snd (img_size img) \<and>
        (0 < fst target_sz \<longrightarrow>
           \<bar>int (fst (img_size out)) * int (snd (img_size img))
             - int (snd (img_size out)) * int (fst (img_size img))\<bar>
           < int (max (fst (img_size img)) (snd (img_size img))))"
    using sizes by (rule impI)
  show ?thesis
    by (intro exI [of _ img] exI [of _ img1] exI [of _ out] exI [of _ b] conjI
        op conv thumb save files imp)
qed

theorem transcoded_image_fits_box_witness:
  "\<exists>img img1 out b w'.
     optimize_image_for_web pillow_env ''a.jpg'' ''cache/thumbnails/t.webp'' THUMBNAIL_SIZE
       THUMBNAIL_QUALITY ''WebP'' example_world = (Inr True, w') \<and>
     Image_open pillow_env ''a.jpg'' example_world = Inr img \<and>
     files w' ''cache/thumbnails/t.webp'' = Some (File b) \<and>
     pillow_sizes img img1 out THUMBNAIL_SIZE \<and>
     img_size img = (1000, 667) \<and> img_size out = (400, 267) \<and>
     fst (img_size out) \<le> fst THUMBNAIL_SIZE \<and> snd (img_size out) \<le> snd THUMBNAIL_SIZE \<and>
     fst (img_size out) \<le> fst (img_size img) \<and> snd (img_size out) \<le> snd (img_size img) \<and>
     \<bar>int (fst (img_size out)) * int (snd (img_size img))
        - int (snd (img_size out)) * int (fst (img_size img))\<bar>
       < int (max (fst (img_size img)) (snd (img_size img)))"
proof -
  let ?c = "optimize_image_for_web pillow_env ''a.jpg'' ''cache/thumbnails/t.webp'' THUMBNAIL_SIZE
       THUMBNAIL_QUALITY ''WebP'' example_world"
  let ?img = "\<lparr>img_mode = ''RGBA'', img_size = (1000, 667), img_data = [1, 2, 3]\<rparr>"
  let ?img1 = "\<lparr>img_mode = ''RGB'', img_size = (1000, 667), img_data = [1, 2, 3]\<rparr>"
  let ?out = "\<lparr>img_mode = ''RGB'', img_size = (400, 267), img_data = [1, 2, 3]\<rparr>"
  have ts: "thumbnail_size (1000, 667) THUMBNAIL_SIZE = Inr (400, 267)"
    by (simp add: thumbnail_size_def round_aspect_def THUMBNAIL_SIZE_def)
  have op: "Image_open pillow_env ''a.jpg'' example_world = Inr ?img"
    by (simp add: Image_open_def open_read_def example_world_def pillow_env_def example_env_def)
  have conv: "pil_convert pillow_env ?img ''RGB'' = Inr ?img1"
    by (simp add: pillow_env_def example_env_def)
  have thumb: "pil_thumbnail pillow_env ?img1 THUMBNAIL_SIZE = Inr ?out"
    by (simp add: pillow_env_def ts)
  have save: "pil_save pillow_env example_world ?out ''cache/thumbnails/t.webp'' kw = Saved [1, 2, 3]" for kw
    by (simp add: pillow_env_def example_env_def)
  have "fst (optimize_image_for_web_try pillow_env ''a.jpg'' ''cache/thumbnails/t.webp'' THUMBNAIL_SIZE
       THUMBNAIL_QUALITY ''WebP'' example_world) = Inr True"
    by (simp add: optimize_image_for_web_try_def op conv thumb save)
  then have r: "fst ?c = Inr True"
    by (simp add: optimize_image_for_web_def Let_def case_prod_unfold)
  then have ok: "?c = (Inr True, snd ?c)" by (metis prod.collapse)
  have lib: "pillow_sizes ?img ?img1 ?out THUMBNAIL_SIZE"
    by (simp add: pillow_sizes_def ts)
  obtain img img1 out b where
    op': "Image_open pillow_env ''a.jpg'' example_world = Inr img"
    and conv': "(if img_mode img \<in> set [''RGBA'', ''LA'', ''P''] then pil_convert pillow_env img ''RGB'' else Inr img) = Inr img1"
    and thumb': "pil_thumbnail pillow_env img1 THUMBNAIL_SIZE = Inr out"
    and files: "files (snd ?c) = (files example_world)(''cache/thumbnails/t.webp'' \<mapsto> File b)"
    and props: "pillow_sizes img img1 out THUMBNAIL_SIZE \<longrightarrow>
        fst (img_size out) \<le> fst THUMBNAIL_SIZE \<and> snd (img_size out) \<le> snd THUMBNAIL_SIZE \<and>
        max (fst (img_size out)) (snd (img_size out)) \<le> max (fst THUMBNAIL_SIZE) (snd THUMBNAIL_SIZE) \<and>
        fst (img_size out) \<le> fst (img_size img) \<and> snd (img_size out) \<le> snd (img_size img) \<and>
        (0 < fst THUMBNAIL_SIZE \<longrightarrow>
           \<bar>int (fst (img_size out)) * int (snd (img_size img))
             - int (snd (img_size out)) * int (fst (img_size img))\<bar>
           < int (max (fst (img_size img)) (snd (img_size img))))"
    using transcoded_image_fits_box [OF ok] by (elim exE conjE)
  have i: "img = ?img" using op op' by simp
  have i1: "img1 = ?img1" using conv conv' by (simp add: i)
  have o: "out = ?out" using thumb thumb' by (simp add: i1)
  have lib': "pillow_sizes img img1 out THUMBNAIL_SIZE" using lib by (simp add: i i1 o)
  have box: "0 < fst THUMBNAIL_SIZE" by (simp add: THUMBNAIL_SIZE_def)
  have "files (snd ?c) ''cache/thumbnails/t.webp'' = Some (File b)" using files by simp
  moreover have "img_size img = (1000, 667)" "img_size out = (400, 267)" by (simp_all add: i o)
  moreover have "fst (img_size out) \<le> fst THUMBNAIL_SIZE \<and> snd (img_size out) \<le> snd THUMBNAIL_SIZE \<and>
        fst (img_size out) \<le> fst (img_size img) \<and> snd (img_size out) \<le> snd (img_size img) \<and>
           \<bar>int (fst (img_size out)) * int (snd (img_size img))
             - int (snd (img_size out)) * int (fst (img_size img))\<bar>
           < int (max (fst (img_size img)) (snd (img_size img)))"
    using props lib' box by simp
  ultimately show ?thesis using ok op' lib'
    by (intro exI [of _ img] exI [of _ img1] exI [of _ out] exI [of _ b] exI [of _ "snd ?c"]) simp
qed

section \<open>What a failed save leaves behind\<close>

text \<open>
  Claim C8 says that after a failed transcoding no later resolution of the same source
  returns a partially written artifact. The code has nothing that removes or checks
  the destination: on a full disk, where the save raises after writing two bytes, the
  first resolution of \<open>a.jpg\<close> returns \<open>a.jpg\<close> and leaves those two bytes at the
  artifact path, and the resolution that follows the expiry of the memoized result
  returns the artifact path.
\<close>

theorem half_written_artifact_counterexample:
  "\<exists>w1 w2.
     get_or_create_thumbnail full_disk_env ''a.jpg'' example_world = (Inr ''a.jpg'', w1) \<and>
     EvTranscode ''a.jpg'' ''cache/thumbnails/00000000000000000000000000000003_thumb.webp'' (Inr False)
       \<in> set (new_events example_world w1) \<and>
     files example_world ''cache/thumbnails/00000000000000000000000000000003_thumb.webp'' = None \<and>
     files w1 ''cache/thumbnails/00000000000000000000000000000003_thumb.webp'' = Some (File [0x52, 0x49]) \<and>
     get_or_create_thumbnail full_disk_env ''a.jpg'' (expire {} {''a.jpg''} {} {} w1) =
       (Inr ''cache/thumbnails/00000000000000000000000000000003_thumb.webp'', w2)"
proof -
  let ?a = "''cache/thumbnails/00000000000000000000000000000003_thumb.webp''"
  let ?c = "get_or_create_thumbnail full_disk_env ''a.jpg'' example_world"
  let ?d = "get_or_create_thumbnail full_disk_env ''a.jpg'' (expire {} {''a.jpg''} {} {} (snd ?c))"
  have 1: "fst ?c = Inr ''a.jpg''" by code_simp
  have 2: "EvTranscode ''a.jpg'' ?a (Inr False) \<in> set (new_events example_world (snd ?c))"
    by code_simp
  have 3: "files example_world ?a = None" by code_simp
  have 4: "files (snd ?c) ?a = Some (File [0x52, 0x49])" by code_simp
  have 5: "fst ?d = Inr ?a" by code_simp
  have "?c = (Inr ''a.jpg'', snd ?c)" using 1 by (metis prod.collapse)
  moreover have "?d = (Inr ?a, snd ?d)" using 5 by (metis prod.collapse)
  ultimately show ?thesis using 2 3 4 by blast
qed

text \<open>
  Claim C8, as amended: when the call of the transcoder inside a resolution does not
  return \<open>True\<close>, it returned \<open>False\<close> (or raised an exception outside the class
  \<open>Exception\<close>, which the resolver catches), the resolution returns the source path,
  and so does every later one for which that result is still memoized. The files are
  as before, except that the destination may hold what the save wrote. Once the
  memoized result has expired, a later resolution returns the destination path whenever
  a file exists there, without running the transcoder. The key memoized for the source
  before the first call, if there was one, is that of its bytes.
\<close>

theorem failed_save_is_not_cleaned_up:
  assumes first: "get_or_create_thumbnail E X w = (r1, w1)"
    and failed: "EvTranscode X a res \<in> set (new_events w w1)" and res: "res \<noteq> Inr True"
    and fresh: "memo_fresh (hash_memo w) X (fst (get_image_hash_body E X w))"
  shows "(res = Inr False \<or> (\<exists>e. res = Inl e \<and> \<not> is_Exception e)) \<and>
         r1 = Inr X \<and>
         (files w1 = files w \<or> (\<exists>b. files w1 = (files w)(a \<mapsto> File b))) \<and>
         (\<forall>H T P G. X \<notin> T \<longrightarrow>
            fst (get_or_create_thumbnail E X (expire H T P G w1)) = Inr X) \<and>
         (\<forall>H T P G. X \<in> T \<longrightarrow> files w1 a \<noteq> None \<longrightarrow>
            fst (get_or_create_thumbnail E X (expire H T P G w1)) = Inr a \<and>
            (\<forall>e \<in> set (new_events (expire H T P G w1)
                          (snd (get_or_create_thumbnail E X (expire H T P G w1)))).
               \<not> is_transcode e))"
proof -
  let ?tp = "\<lambda>k. os_path_join THUMBNAILS_DIR (k @ ''_thumb.webp'')"
  obtain r w' where body1: "get_or_create_thumbnail_body E X w = (Inr r, w')"
    and call1: "get_or_create_thumbnail E X w = (Inr r, w'\<lparr>thumbnail_memo := (thumbnail_memo w')(X \<mapsto> r)\<rparr>)"
  proof -
    have "\<not> (\<exists>v. get_or_create_thumbnail E X w = (Inr v, w))"
      using first failed by (auto simp: new_events_def)
    then show thesis using thumbnail_call_shape [of w X E] that by blast
  qed
  have w1: "w1 = w'\<lparr>thumbnail_memo := (thumbnail_memo w')(X \<mapsto> r)\<rparr>" and r1: "r1 = Inr r"
    using first call1 by simp_all
  have ev1: "EvTranscode X a res \<in> set (new_events w w')"
    using failed by (simp add: w1 new_events_def)
  obtain k where key: "fst (get_image_hash_body E X w) = Inr k"
    and a: "a = ?tp k" and absent: "files w a = None"
    and outcome: "res = Inr False \<or> (\<exists>e. res = Inl e \<and> \<not> is_Exception e)"
    and r: "r = X"
    and fw': "files w' = files w \<or> (\<exists>b data. open_read X w = Inr data \<and> files w' = (files w)(a \<mapsto> File b))"
    and hw': "hash_memo w' = (hash_memo w)(X \<mapsto> k)"
  proof (cases rule: thumbnail_body_cases [of w X E])
    case (hit k evh)
    then have "new_events w w' = evh @ [EvExists (?tp k)]"
      using body1 by (auto simp: new_events_def)
    then have False using ev1 hit(1) by auto
    then show ?thesis ..
  next
    case (made k evh b data)
    then have "new_events w w' = evh @ [EvExists (?tp k), EvTranscode X (?tp k) (Inr True)]"
      using body1 by (auto simp: new_events_def)
    then have False using ev1 made(1) res by auto
    then show ?thesis ..
  next
    case (failed k evh res' fs)
    then have ne: "new_events w w' = evh @ [EvExists (?tp k), EvTranscode X (?tp k) res']"
      using body1 by (auto simp: new_events_def)
    then have a: "a = ?tp k" and res': "res' = res" using ev1 failed(1) by auto
    have key: "fst (get_image_hash_body E X w) = Inr k"
      using failed(1) fresh by (auto simp: memo_fresh_def)
    have "files w' = fs" "hash_memo w' = (hash_memo w)(X \<mapsto> k)" "r = X"
      using failed(5) body1 by auto
    then show ?thesis
      using that [of k] key a res' failed(2,3,4) by auto
  qed
  have fw1: "files w1 = files w'" by (simp add: w1)
  have src: "open_read X w' = open_read X w"
    using fw'
  proof
    assume "files w' = files w"
    then show ?thesis by (simp add: open_read_def)
  next
    assume "\<exists>b data. open_read X w = Inr data \<and> files w' = (files w)(a \<mapsto> File b)"
    then obtain b data where d: "open_read X w = Inr data" and f: "files w' = (files w)(a \<mapsto> File b)"
      by blast
    have "X \<noteq> a" using d absent by (auto simp: open_read_Inr)
    then show ?thesis using f by (simp add: open_read_def)
  qed
  have memo_hit: "fst (get_or_create_thumbnail E X (expire H T P G w1)) = Inr X" if "X \<notin> T" for H T P G
  proof -
    have "thumbnail_memo (expire H T P G w1) X = Some X"
      using that by (simp add: expire_def w1 r)
    then show ?thesis by (simp add: get_or_create_thumbnail_def st_cache_data_def)
  qed
  have left_over: "fst (get_or_create_thumbnail E X (expire H T P G w1)) = Inr a \<and>
            (\<forall>e \<in> set (new_events (expire H T P G w1)
                          (snd (get_or_create_thumbnail E X (expire H T P G w1)))).
               \<not> is_transcode e)"
    if T: "X \<in> T" and ex: "files w1 a \<noteq> None" for H T P G
  proof -
    define v where "v = expire H T P G w1"
    have fv: "files v = files w'" by (simp add: v_def expire_def w1)
    have hv: "hash_memo v X = None \<or> hash_memo v X = Some k"
      by (simp add: v_def expire_def w1 hw' restrict_map_def)
    have tv: "thumbnail_memo v X = None"
      using T by (simp add: v_def expire_def)
    have "open_read X v = open_read X w"
      using src fv by (simp add: open_read_def)
    then have keyv: "fst (get_image_hash_body E X v) = Inr k"
      using key hash_body_open_read [of X v w E] by simp
    have exv: "files v a \<noteq> None" using ex fv fw1 by simp
    have "\<exists>evh u. (evh = [] \<or> evh = [EvRead X]) \<and> log u = log v @ evh @ [EvExists a] \<and>
        get_or_create_thumbnail_body E X v = (Inr a, u)"
    proof (cases rule: thumbnail_body_cases [of v X E])
      case (hit k' evh)
      then have "k' = k" using hv keyv by auto
      then show ?thesis using hit a by auto
    next
      case (made k' evh b' data')
      then have "k' = k" using hv keyv by auto
      then have False using made(2) exv a by simp
      then show ?thesis ..
    next
      case (failed k' evh res fs)
      then have "k' = k" using hv keyv by auto
      then have False using failed(2) exv a by simp
      then show ?thesis ..
    qed
    then obtain evh u where evh: "evh = [] \<or> evh = [EvRead X]"
      and lu: "log u = log v @ evh @ [EvExists a]"
      and bu: "get_or_create_thumbnail_body E X v = (Inr a, u)"
      by blast
    have c: "get_or_create_thumbnail E X v = (Inr a, u\<lparr>thumbnail_memo := (thumbnail_memo u)(X \<mapsto> a)\<rparr>)"
      using tv bu by (simp add: get_or_create_thumbnail_def st_cache_data_def)
    have "new_events v (u\<lparr>thumbnail_memo := (thumbnail_memo u)(X \<mapsto> a)\<rparr>) = evh @ [EvExists a]"
      by (simp add: new_events_def lu)
    then have "\<forall>e \<in> set (new_events v (snd (get_or_create_thumbnail E X v))). \<not> is_transcode e"
      using evh c by auto
    then show ?thesis using c unfolding v_def by simp
  qed
  have "files w1 = files w \<or> (\<exists>b. files w1 = (files w)(a \<mapsto> File b))"
    using fw' fw1 by auto
  then show ?thesis
    using outcome r1 r memo_hit left_over by blast
qed

theorem failed_save_is_not_cleaned_up_witness:
  "\<exists>w1.
     get_or_create_thumbnail full_disk_env ''a.jpg'' example_world = (Inr ''a.jpg'', w1) \<and>
     EvTranscode ''a.jpg'' ''cache/thumbnails/00000000000000000000000000000003_thumb.webp'' (Inr False)
       \<in> set (new_events example_world w1) \<and>
     memo_fresh (hash_memo example_world) ''a.jpg''
       (fst (get_image_hash_body full_disk_env ''a.jpg'' example_world)) \<and>
     files w1 ''cache/thumbnails/00000000000000000000000000000003_thumb.webp'' \<noteq> None \<and>
     fst (get_or_create_thumbnail full_disk_env ''a.jpg'' (expire {} {} {} {} w1)) = Inr ''a.jpg'' \<and>
     fst (get_or_create_thumbnail full_disk_env ''a.jpg'' (expire {} {''a.jpg''} {} {} w1)) =
       Inr ''cache/thumbnails/00000000000000000000000000000003_thumb.webp''"
proof -
  let ?a = "''cache/thumbnails/00000000000000000000000000000003_thumb.webp''"
  let ?c = "get_or_create_thumbnail full_disk_env ''a.jpg'' example_world"
  have first: "?c = (fst ?c, snd ?c)" by simp
  have failed: "EvTranscode ''a.jpg'' ?a (Inr False) \<in> set (new_events example_world (snd ?c))"
    by code_simp
  have res: "(Inr False :: py_exc + bool) \<noteq> Inr True" by simp
  have fresh: "memo_fresh (hash_memo example_world) ''a.jpg''
       (fst (get_image_hash_body full_disk_env ''a.jpg'' example_world))"
    by (simp add: memo_fresh_def example_world_def)
  have left: "files (snd ?c) ?a \<noteq> None" by code_simp
  note t = failed_save_is_not_cleaned_up [OF first failed res fresh]
  have r: "fst ?c = Inr ''a.jpg''" using t by blast
  have hit: "fst (get_or_create_thumbnail full_disk_env ''a.jpg'' (expire {} {} {} {} (snd ?c))) = Inr ''a.jpg''"
    using t by blast
  have again: "fst (get_or_create_thumbnail full_disk_env ''a.jpg'' (expire {} {''a.jpg''} {} {} (snd ?c))) = Inr ?a"
    using t left by blast
  have "?c = (Inr ''a.jpg'', snd ?c)" using r by (metis prod.collapse)
  then show ?thesis using failed fresh left hit again by blast
qed

section \<open>The batch keeps the order of its input\<close>

text \<open>
  Claim C4: for every sequence of source paths, every interleaving \<open>order\<close> of the steps
  of the tasks and every set \<open>late\<close> of futures that time out,
  \<open>batch_process_thumbnails_silent\<close> returns one pair for each input; the first
  components of the pairs are the inputs in their order, and the second component of
  pair \<open>i\<close> is what task \<open>i\<close> returned: the source path when its future timed out or
  the task has not returned, and the path the call returned otherwise. When the tasks
  run one after the other and none is late, the batch is \<open>resolve_each\<close>: the list of
  the resolutions of the inputs, in the order of the input, and the world they leave.
\<close>

theorem batch_preserves_order:
  "(\<exists>results w'.
      batch_process_thumbnails_silent E order late image_paths w = (Inr results, w') \<and>
      length results = length image_paths \<and> map fst results = image_paths \<and>
      (\<forall>i < length image_paths.
         snd (results ! i) =
           (if late i then image_paths ! i
            else case fst (run_pool E order (map Submitted image_paths) w) ! i of
                   Returned (Inr t) \<Rightarrow> t | _ \<Rightarrow> image_paths ! i))) \<and>
   batch_process_thumbnails_silent E (in_turn (length image_paths)) (\<lambda>i. False) image_paths w =
     (Inr (fst (resolve_each E image_paths w)), snd (resolve_each E image_paths w))"
proof -
  obtain tasks w' where rp: "run_pool E order (map Submitted image_paths) w = (tasks, w')"
    and len: "length tasks = length image_paths"
    and b: "batch_process_thumbnails_silent E order late image_paths w =
       (Inr (map (\<lambda>(i, p). (p, case future_result tasks late i of Inr t \<Rightarrow> t | Inl e \<Rightarrow> p))
               (zip [0..<length image_paths] image_paths)), w')"
    using batch_eq [of E order image_paths w late] by blast
  let ?rs = "map (\<lambda>(i, p). (p, case future_result tasks late i of Inr t \<Rightarrow> t | Inl e \<Rightarrow> p))
               (zip [0..<length image_paths] image_paths)"
  have "map fst ?rs = map snd (zip [0..<length image_paths] image_paths)"
    by (simp add: case_prod_unfold comp_def)
  also have "\<dots> = image_paths" by simp
  finally have paths: "map fst ?rs = image_paths" .
  have second: "snd (?rs ! i) =
           (if late i then image_paths ! i
            else case tasks ! i of Returned (Inr t) \<Rightarrow> t | _ \<Rightarrow> image_paths ! i)"
    if i: "i < length image_paths" for i
  proof -
    have "snd (?rs ! i) = (case future_result tasks late i of Inr t \<Rightarrow> t | Inl e \<Rightarrow> image_paths ! i)"
      using i by simp
    also have "\<dots> = (if late i then image_paths ! i
            else case tasks ! i of Returned (Inr t) \<Rightarrow> t | _ \<Rightarrow> image_paths ! i)"
      using i len by (auto simp: future_result_def split: task.splits sum.splits)
    finally show ?thesis .
  qed
  have "length ?rs = length image_paths" by simp
  then have "\<exists>results w'.
      batch_process_thumbnails_silent E order late image_paths w = (Inr results, w') \<and>
      length results = length image_paths \<and> map fst results = image_paths \<and>
      (\<forall>i < length image_paths.
         snd (results ! i) =
           (if late i then image_paths ! i
            else case fst (run_pool E order (map Submitted image_paths) w) ! i of
                   Returned (Inr t) \<Rightarrow> t | _ \<Rightarrow> image_paths ! i))"
    using b paths second rp by (intro exI [of _ ?rs] exI [of _ w']) simp
  then show ?thesis using batch_in_turn by blast
qed

theorem batch_preserves_order_witness:
  "\<exists>results w'. batch_process_thumbnails_silent example_env [2, 0, 1, 2, 0, 1, 2, 0, 1] (\<lambda>i. i = 1)
       [''a.jpg'', ''b.jpg'', ''bad.jpg''] example_world = (Inr results, w') \<and>
     length results = 3 \<and>
     map fst results = [''a.jpg'', ''b.jpg'', ''bad.jpg''] \<and>
     snd (results ! 0) = ''cache/thumbnails/00000000000000000000000000000003_thumb.webp'' \<and>
     snd (results ! 1) = ''b.jpg'' \<and> snd (results ! 2) = ''bad.jpg''"
proof -
  let ?ps = "[''a.jpg'', ''b.jpg'', ''bad.jpg'']"
  let ?order = "[2, 0, 1, 2, 0, 1, 2, 0, 1]"
  have "\<exists>results w'.
    batch_process_thumbnails_silent example_env ?order (\<lambda>i. i = 1) ?ps example_world = (Inr results, w')
    \<and> length results = length ?ps
    \<and> map fst results = ?ps
    \<and> (\<forall>i < length ?ps. snd (results ! i) =
           (if i = 1 then ?ps ! i
            else case fst (run_pool example_env ?order (map Submitted ?ps) example_world) ! i of
                   Returned (Inr t) \<Rightarrow> t | _ \<Rightarrow> ?ps ! i))"
    by (rule batch_preserves_order [of example_env ?order "\<lambda>i. i = 1" ?ps example_world, THEN conjunct1])
  then obtain results w' where
    b: "batch_process_thumbnails_silent example_env ?order (\<lambda>i. i = 1) ?ps example_world = (Inr results, w')"
    and len: "length results = length ?ps"
    and paths: "map fst results = ?ps"
    and each: "\<forall>i < length ?ps. snd (results ! i) =
           (if i = 1 then ?ps ! i
            else case fst (run_pool example_env ?order (map Submitted ?ps) example_world) ! i of
                   Returned (Inr t) \<Rightarrow> t | _ \<Rightarrow> ?ps ! i)"
    by (elim exE conjE)
  have rp: "fst (run_pool example_env ?order (map Submitted ?ps) example_world) =
      [Returned (Inr ''cache/thumbnails/00000000000000000000000000000003_thumb.webp''),
       Returned (Inr ''cache/thumbnails/00000000000000000000000000000003_thumb.webp''),
       Returned (Inr ''bad.jpg'')]"
    by code_simp
  have "snd (results ! 0) = ''cache/thumbnails/00000000000000000000000000000003_thumb.webp''"
    using each [rule_format, of 0] unfolding rp by simp
  moreover have "snd (results ! 1) = ''b.jpg''"
    using each [rule_format, of 1] by simp
  moreover have "snd (results ! 2) = ''bad.jpg''"
    using each [rule_format, of 2] unfolding rp by simp
  ultimately show ?thesis using b len paths by auto
qed

section \<open>A failing item does not abort the batch\<close>

text \<open>
  Claim C5: the batch always returns a list, never an exception. The entry of an item
  whose future timed out is the pair of its source path with itself, and the entry of
  every other item is what it is in the run in which no future times out. The loop of
  lines 143 to 149 does the same for any outcomes of \<open>future.result\<close>: when each is
  a value or an exception of class \<open>Exception\<close> (\<open>TimeoutError\<close> is one), the entry
  of an item is its value, or the source path when it raised.
\<close>

theorem batch_isolates_failures:
  "(\<exists>results results0 w'.
      batch_process_thumbnails_silent E order late image_paths w = (Inr results, w') \<and>
      batch_process_thumbnails_silent E order (\<lambda>i. False) image_paths w = (Inr results0, w') \<and>
      length results = length image_paths \<and> length results0 = length image_paths \<and>
      (\<forall>i < length image_paths.
         if late i then results ! i = (image_paths ! i, image_paths ! i)
         else results ! i = results0 ! i)) \<and>
   (\<forall>result futures.
      (\<forall>(i, p) \<in> set futures. \<forall>e. result i = Inl e \<longrightarrow> is_Exception e) \<longrightarrow>
      await_results result futures [] =
        Inr (map (\<lambda>(i, p). (p, case result i of Inr t \<Rightarrow> t | Inl e \<Rightarrow> p)) futures))"
proof -
  let ?fs = "zip [0..<length image_paths] image_paths"
  obtain tasks w' where rp: "run_pool E order (map Submitted image_paths) w = (tasks, w')"
    and b: "batch_process_thumbnails_silent E order late image_paths w =
       (Inr (map (\<lambda>(i, p). (p, case future_result tasks late i of Inr t \<Rightarrow> t | Inl e \<Rightarrow> p)) ?fs), w')"
    using batch_eq [of E order image_paths w late] by blast
  have b0: "batch_process_thumbnails_silent E order (\<lambda>i. False) image_paths w =
       (Inr (map (\<lambda>(i, p). (p, case future_result tasks (\<lambda>i. False) i of Inr t \<Rightarrow> t | Inl e \<Rightarrow> p)) ?fs), w')"
    using batch_eq [of E order image_paths w "\<lambda>i. False"] rp by auto
  let ?rs = "map (\<lambda>(i, p). (p, case future_result tasks late i of Inr t \<Rightarrow> t | Inl e \<Rightarrow> p)) ?fs"
  let ?base = "map (\<lambda>(i, p). (p, case future_result tasks (\<lambda>i. False) i of Inr t \<Rightarrow> t | Inl e \<Rightarrow> p)) ?fs"
  have each: "if late i then ?rs ! i = (image_paths ! i, image_paths ! i) else ?rs ! i = ?base ! i"
    if i: "i < length image_paths" for i
  proof (cases "late i")
    case True
    then have "future_result tasks late i = Inl TimeoutError"
      by (simp add: future_result_def)
    then have "?rs ! i = (image_paths ! i, image_paths ! i)"
      using i by simp
    then show ?thesis using True by simp
  next
    case False
    then have "future_result tasks late i = future_result tasks (\<lambda>i. False) i"
      by (simp add: future_result_def)
    then have "?rs ! i = ?base ! i"
      using i by simp
    then show ?thesis using False by simp
  qed
  have "length ?rs = length image_paths" "length ?base = length image_paths" by simp_all
  then have first: "\<exists>results results0 w'.
      batch_process_thumbnails_silent E order late image_paths w = (Inr results, w') \<and>
      batch_process_thumbnails_silent E order (\<lambda>i. False) image_paths w = (Inr results0, w') \<and>
      length results = length image_paths \<and> length results0 = length image_paths \<and>
      (\<forall>i < length image_paths.
         if late i then results ! i = (image_paths ! i, image_paths ! i)
         else results ! i = results0 ! i)"
    using b b0 each by blast
  have second: "\<forall>result futures.
      (\<forall>(i, p) \<in> set futures. \<forall>e. result i = Inl e \<longrightarrow> is_Exception e) \<longrightarrow>
      await_results result futures [] =
        Inr (map (\<lambda>(i, p). (p, case result i of Inr t \<Rightarrow> t | Inl e \<Rightarrow> p)) futures)"
    using await_results_eq [where results = "[]"] by simp
  show ?thesis using first second by (rule conjI)
qed

theorem batch_isolates_failures_witness:
  "\<exists>results results0 w'.
     batch_process_thumbnails_silent example_env [2, 0, 1, 2, 0, 1, 2, 0, 1] (\<lambda>i. i = 1)
       [''a.jpg'', ''b.jpg'', ''bad.jpg''] example_world = (Inr results, w') \<and>
     batch_process_thumbnails_silent example_env [2, 0, 1, 2, 0, 1, 2, 0, 1] (\<lambda>i. False)
       [''a.jpg'', ''b.jpg'', ''bad.jpg''] example_world = (Inr results0, w') \<and>
     length results = 3 \<and>
     results ! 1 = (''b.jpg'', ''b.jpg'') \<and> results ! 0 = results0 ! 0 \<and> results ! 2 = results0 ! 2"
proof -
  let ?ps = "[''a.jpg'', ''b.jpg'', ''bad.jpg'']"
  let ?order = "[2, 0, 1, 2, 0, 1, 2, 0, 1]"
  obtain results results0 w' where
    b: "batch_process_thumbnails_silent example_env ?order (\<lambda>i. i = 1) ?ps example_world = (Inr results, w')"
    and b0: "batch_process_thumbnails_silent example_env ?order (\<lambda>i. False) ?ps example_world = (Inr results0, w')"
    and len: "length results = length ?ps"
    and each: "\<forall>i < length ?ps. if i = 1 then results ! i = (?ps ! i, ?ps ! i) else results ! i = results0 ! i"
    using batch_isolates_failures [of example_env ?order "\<lambda>i. i = 1" ?ps example_world]
    by blast
  have "results ! 1 = (''b.jpg'', ''b.jpg'')"
    using each [rule_format, of 1] by simp
  moreover have "results ! 0 = results0 ! 0"
    using each [rule_format, of 0] by simp
  moreover have "results ! 2 = results0 ! 2"
    using each [rule_format, of 2] by simp
  ultimately show ?thesis using b b0 len by auto
qed

section \<open>The page index of a gallery\<close>

text \<open>
  While the list of images of a gallery stays the same, the page entry of the session
  state stays within the pages of the list: an absent entry counts as page 0, every
  button leaves the entry within the range, and the page shown is the non-empty slice
  of the list between \<open>start_idx\<close> and \<open>end_idx\<close>.
\<close>

lemma page_start_in_list:
  fixes p n :: int
  assumes "0 \<le> p" and "p < (n + 8 - 1) div 8"
  shows "p * 8 < n"
  using assms by linarith

lemma py_slice_window:
  assumes "0 \<le> i" and "i < j" and "j \<le> int (length xs)"
  shows "py_slice xs i j = take (nat (j - i)) (drop (nat i) xs)" and "py_slice xs i j \<noteq> []"
    and "length (py_slice xs i j) = nat (j - i)"
proof -
  show eq: "py_slice xs i j = take (nat (j - i)) (drop (nat i) xs)"
    using assms by (simp add: py_slice_def Let_def min_def)
  show "length (py_slice xs i j) = nat (j - i)"
    unfolding eq using assms by simp
  then show "py_slice xs i j \<noteq> []" using assms by auto
qed

lemma pagination_invariant_fixed_gallery:
  fixes imagenes :: "path list"
  defines "total_pages \<equiv> (int (length imagenes) + IMAGES_PER_PAGE - 1) div IMAGES_PER_PAGE"
  assumes ne: "imagenes \<noteq> []"
    and inv: "page = None \<or> (\<exists>p. page = Some p \<and> 0 \<le> p \<and> p < total_pages)"
    and run: "mostrar_galeria_optimizada_final imagenes clicked page = (page', shown)"
  shows "(page' = None \<or> (\<exists>p. page' = Some p \<and> 0 \<le> p \<and> p < total_pages)) \<and>
         (\<forall>pg. shown = Some pg \<longrightarrow>
            0 \<le> start_idx pg \<and> start_idx pg < end_idx pg \<and> end_idx pg \<le> int (length imagenes) \<and>
            imagenes_pagina pg = take (nat (end_idx pg - start_idx pg)) (drop (nat (start_idx pg)) imagenes) \<and>
            imagenes_pagina pg \<noteq> [])"
proof -
  define n where "n = int (length imagenes)"
  define c where "c = (case page of None \<Rightarrow> 0 | Some p \<Rightarrow> p)"
  have n: "0 < n" using ne by (simp add: n_def)
  have tp: "total_pages = (n + 8 - 1) div 8"
    by (simp add: total_pages_def n_def IMAGES_PER_PAGE_def)
  have tp1: "1 \<le> total_pages" using n unfolding tp by linarith
  have c: "0 \<le> c" "c < total_pages"
    using inv tp1 by (auto simp: c_def)
  have start: "c * 8 < n" using c unfolding tp by (rule page_start_in_list)
  let ?s = "c * 8" and ?e = "min (c * 8 + 8) n"
  have win: "0 \<le> ?s" "?s < ?e" "?e \<le> int (length imagenes)"
    using c start by (simp_all add: n_def)
  note sl = py_slice_window [OF win]
  have run': "(page', shown) =
     (if 1 < total_pages \<and> clicked = Some Primera \<and> c \<noteq> 0 then (Some 0, None)
      else if 1 < total_pages \<and> clicked = Some Anterior \<and> c \<noteq> 0 then (Some (max 0 (c - 1)), None)
      else if 1 < total_pages \<and> clicked = Some Siguiente \<and> \<not> total_pages - 1 \<le> c
        then (Some (min (total_pages - 1) (c + 1)), None)
      else if 1 < total_pages \<and> clicked = Some Ultima \<and> \<not> total_pages - 1 \<le> c
        then (Some (total_pages - 1), None)
      else if clicked = Some Volver then (None, None)
      else (Some c, Some \<lparr>start_idx = ?s, end_idx = ?e, imagenes_pagina = py_slice imagenes ?s ?e\<rparr>))"
    using run [symmetric] ne
    by (simp add: mostrar_galeria_optimizada_final_def Let_def total_pages_def c_def n_def IMAGES_PER_PAGE_def)
  show ?thesis
    using run' c tp1 win sl by (auto split: if_splits)
qed

text \<open>
  Claim C10 says that the stored page index always stays within
  \<open>[0, total_pages - 1]\<close> and that the slice is always a non-empty window of the
  list. The buttons clamp the index they write, but the index read back at line 197 is
  not clamped against the list of the current run. With nine images the button for the
  next page stores index 1, and the view shows the ninth image. When the gallery then
  has eight images (a file was removed and the listing refreshed), the same entry gives
  \<open>start_idx = end_idx = 8\<close>: the page shown is empty, there is only one page, so no
  pagination button is drawn, and the stored index 1 is above \<open>total_pages - 1 = 0\<close>.
\<close>

theorem page_index_out_of_range_after_shrink:
  "mostrar_galeria_optimizada_final
     [''1.jpg'', ''2.jpg'', ''3.jpg'', ''4.jpg'', ''5.jpg'', ''6.jpg'', ''7.jpg'', ''8.jpg'', ''9.jpg'']
     (Some Siguiente) None = (Some 1, None) \<and>
   mostrar_galeria_optimizada_final
     [''1.jpg'', ''2.jpg'', ''3.jpg'', ''4.jpg'', ''5.jpg'', ''6.jpg'', ''7.jpg'', ''8.jpg'', ''9.jpg'']
     None (Some 1) =
     (Some 1, Some \<lparr>start_idx = 8, end_idx = 9, imagenes_pagina = [''9.jpg'']\<rparr>) \<and>
   mostrar_galeria_optimizada_final
     [''1.jpg'', ''2.jpg'', ''3.jpg'', ''4.jpg'', ''5.jpg'', ''6.jpg'', ''7.jpg'', ''8.jpg'']
     None (Some 1) =
     (Some 1, Some \<lparr>start_idx = 8, end_idx = 8, imagenes_pagina = []\<rparr>) \<and>
   (int (length [''1.jpg'', ''2.jpg'', ''3.jpg'', ''4.jpg'', ''5.jpg'', ''6.jpg'', ''7.jpg'', ''8.jpg''])
      + IMAGES_PER_PAGE - 1) div IMAGES_PER_PAGE - 1 = 0"
  by (simp add: mostrar_galeria_optimizada_final_def IMAGES_PER_PAGE_def py_slice_def Let_def)

end
